theory Spec2Isabelle
  imports Complex_Main "HOL-Library.Multiset"
begin

section \<open>Gene-identity reconciliation: \<open>get_dir\<close> and \<open>assign_gene_names_og\<close>\<close>

text \<open>
  The development embeds the two functions of
  \<^verbatim>\<open>spagrn/benchmark/receptor_simulation.py\<close> that turn simulated gene identifiers into
  real gene names, and the four lines of the script entry point that call them and write
  \<^verbatim>\<open>name_df.csv\<close>.

  Python and pandas leave three things open that the results depend on: the order of
  rows with equal keys under \<^verbatim>\<open>sort_values\<close> (the source keeps the default
  \<^verbatim>\<open>kind='quicksort'\<close>; of the kinds pandas offers it documents only
  \<^verbatim>\<open>mergesort\<close> and \<^verbatim>\<open>stable\<close> as stable), the order in which
  \<^verbatim>\<open>list(set(...))\<close> enumerates a set (for strings it follows hashes that Python
  randomises for each process), and the positions \<^verbatim>\<open>random.sample\<close> draws from
  the module-level generator, which the source never seeds. They are parameters of the
  model (the record \<open>pylib\<close>), constrained only by what the libraries promise where a
  theorem needs it. Ranks and effects are numbers without \<^verbatim>\<open>NaN\<close>.

  A raise is a value \<open>Inl\<close> of the result. The two lists that the caller passes are
  changed in place by part one; the model returns them with the table when the call
  returns, and drops them when it raises. What the call does to the objects of the
  caller is the matter of a second embedding, on a store of objects, in which the
  arguments are addresses and two parameters may name one object.
\<close>

subsection \<open>Identifiers, errors and frames\<close>

text \<open>
  A gene identifier is a Python \<^verbatim>\<open>int\<close> or a Python \<^verbatim>\<open>str\<close>: the script compares
  \<^verbatim>\<open>grn_gt['regulator.gene']\<close> with \<^verbatim>\<open>10\<close> and selects the noise identifiers with
  \<^verbatim>\<open>'gene' in i\<close>. The two kinds are never equal to each other, and
  \<^verbatim>\<open>astype(str)\<close> turns the first into the second.
\<close>

datatype gene_id = IntId int | StrId string

datatype error = KeyError | IndexError | ValueError | FileNotFoundError | AssertionError

fun str_nat :: "nat \<Rightarrow> string" where
  "str_nat n =
     (if n < 10 then [char_of (48 + n)]
      else str_nat (n div 10) @ [char_of (48 + n mod 10)])"

declare str_nat.simps [simp del]

definition str_int :: "int \<Rightarrow> string" where
  "str_int i = (if i < 0 then CHR ''-'' # str_nat (nat (- i)) else str_nat (nat i))"

fun astype_str :: "gene_id \<Rightarrow> string" where
  "astype_str (IntId i) = str_int i"
| "astype_str (StrId s) = s"

text \<open>One row of the regulatory ground truth, of the ligand-receptor ground truth and of
  the ligand-receptor reference vocabulary (\<^verbatim>\<open>lr_network_mouse.csv\<close>).\<close>

record grn_row =
  regulator_gene :: gene_id
  regulated_gene :: gene_id
  regulator_effect :: real

record lr_row =
  ligand :: gene_id
  receptor :: gene_id

record niche_row =
  niche_from :: string
  niche_to :: string

text \<open>
  The ranking table: the labels of its gene columns in column order, and its rows, each
  the value of the \<^verbatim>\<open>motifs\<close> column with the ranks under the gene columns. The frame
  is rectangular, so every rank list is as long as \<open>gene_columns\<close>.
\<close>

record rdb_frame =
  gene_columns :: "string list"
  rdb_rows :: "(string \<times> int list) list"

definition rdb_columns :: "rdb_frame \<Rightarrow> string list" where
  "rdb_columns rdb = gene_columns rdb @ [''motifs'']"

subsection \<open>What the libraries leave open\<close>

record 'g pylib =
  sort_values_effect :: "grn_row list \<Rightarrow> grn_row list"
  sort_values_rank :: "(string \<times> int) list \<Rightarrow> (string \<times> int) list"
  list_of_name_set :: "string list \<Rightarrow> string list"
  list_of_id_set :: "gene_id list \<Rightarrow> gene_id list"
  sample :: "'g \<Rightarrow> string list \<Rightarrow> nat \<Rightarrow> string list \<times> 'g"

text \<open>
  \<open>sort_values_effect\<close> is \<^verbatim>\<open>sub.sort_values(by='regulator.effect', ascending=False)\<close>;
  \<open>sort_values_rank\<close> is \<^verbatim>\<open>sub.sort_values(by=row, axis=1)\<close> on the columns paired
  with their ranks in that row; \<open>list_of_name_set\<close> and \<open>list_of_id_set\<close> are
  \<^verbatim>\<open>list(s)\<close> for a set \<open>s\<close> given by its members in the order they were added;
  \<open>sample\<close> is \<^verbatim>\<open>random.sample\<close> on a population no shorter than \<open>k\<close>, threading
  the state of the generator.
\<close>

definition sorts_by_effect_desc :: "(grn_row list \<Rightarrow> grn_row list) \<Rightarrow> bool" where
  "sorts_by_effect_desc srt \<longleftrightarrow>
     (\<forall>rows. mset (srt rows) = mset rows \<and>
        sorted_wrt (\<lambda>a b. regulator_effect b \<le> regulator_effect a) (srt rows))"

definition lists_a_set :: "('a list \<Rightarrow> 'a list) \<Rightarrow> bool" where
  "lists_a_set f \<longleftrightarrow> (\<forall>xs. distinct (f xs) \<and> set (f xs) = set xs)"

definition draws_positions :: "('g \<Rightarrow> string list \<Rightarrow> nat \<Rightarrow> string list \<times> 'g) \<Rightarrow> bool" where
  "draws_positions smp \<longleftrightarrow>
     (\<forall>g population k. k \<le> length population \<longrightarrow>
        (\<exists>js. length js = k \<and> distinct js \<and> list_all (\<lambda>j. j < length population) js \<and>
              fst (smp g population k) = map ((!) population) js))"

subsection \<open>\<open>get_dir\<close>\<close>

definition get_dir :: "'g pylib \<Rightarrow> grn_row list \<Rightarrow> gene_id list \<Rightarrow> (gene_id \<rightharpoonup> gene_id list)" where
  "get_dir L gt regulators =
     fold (\<lambda>reg dir.
             let sub = filter (\<lambda>r. regulator_gene r = reg) gt;
                 sorted_sub = sort_values_effect L sub
             in dir(reg \<mapsto> map regulated_gene sorted_sub))
          regulators Map.empty"

text \<open>The resolver as the specification words it: effect descending, ties in input
  order.\<close>

definition spec_get_dir :: "grn_row list \<Rightarrow> gene_id \<Rightarrow> gene_id list" where
  "spec_get_dir gt reg =
     map regulated_gene
       (sort_key (\<lambda>r. - regulator_effect r) (filter (\<lambda>r. regulator_gene r = reg) gt))"

subsection \<open>\<open>assign_gene_names_og\<close>, part one: names for the targets\<close>

text \<open>\<^verbatim>\<open>sorted_sub.columns\<close> of lines 324 and 325: the gene columns, ordered by the ranks
  in the first row of the motif; \<^verbatim>\<open>sub.index.values[0]\<close> raises when the motif has no
  row.\<close>

definition sorted_sub_columns :: "'g pylib \<Rightarrow> rdb_frame \<Rightarrow> string \<Rightarrow> error + string list" where
  "sorted_sub_columns L rdb one_motif =
     (case filter (\<lambda>row. fst row = one_motif) (rdb_rows rdb) of
        [] \<Rightarrow> Inl IndexError
      | row # _ \<Rightarrow> Inr (map fst (sort_values_rank L (zip (gene_columns rdb) (snd row)))))"

text \<open>The inner loop of lines 329 to 333; \<open>stop\<close> is \<^verbatim>\<open>current_len + top_num\<close>.\<close>

fun match_names :: "string list \<Rightarrow> nat \<Rightarrow> string list \<Rightarrow> string list" where
  "match_names [] stop total_name = total_name"
| "match_names (tg # columns) stop total_name =
     (let total_name' = (if tg \<notin> set total_name then total_name @ [tg] else total_name)
      in if length total_name' = stop then total_name'
         else match_names columns stop total_name')"

text \<open>One round of the loop over \<open>tfs\<close> (lines 321 to 333) on the two lists the caller
  passed, and the loop itself.\<close>

definition target_step ::
  "'g pylib \<Rightarrow> (gene_id \<rightharpoonup> string) \<Rightarrow> (string \<rightharpoonup> string) \<Rightarrow> rdb_frame \<Rightarrow> (gene_id \<rightharpoonup> gene_id list) \<Rightarrow>
   gene_id \<Rightarrow> gene_id list \<times> string list \<Rightarrow> error + gene_id list \<times> string list" where
  "target_step L tf_id_dir tf_motif_dir rdb grn_dir tf st =
     (case st of (total_id, total_name) \<Rightarrow>
      let current_len = length total_name in
      (case tf_id_dir tf of None \<Rightarrow> Inl KeyError | Some tf_name \<Rightarrow>
      (case tf_motif_dir tf_name of None \<Rightarrow> Inl KeyError | Some one_motif \<Rightarrow>
      (case sorted_sub_columns L rdb one_motif of Inl e \<Rightarrow> Inl e | Inr columns \<Rightarrow>
      (case grn_dir tf of None \<Rightarrow> Inl KeyError | Some targets \<Rightarrow>
         let top_num = length targets
         in Inr (total_id @ targets,
                 match_names columns (current_len + top_num) total_name))))))"

fun for_each :: "('a \<Rightarrow> 's \<Rightarrow> error + 's) \<Rightarrow> 'a list \<Rightarrow> 's \<Rightarrow> error + 's" where
  "for_each body [] st = Inr st"
| "for_each body (x # xs) st =
     (case body x st of Inl e \<Rightarrow> Inl e | Inr st' \<Rightarrow> for_each body xs st')"

text \<open>\<^verbatim>\<open>pd.DataFrame({'id': ..., 'name': ...})\<close> raises on columns of unequal length;
  \<^verbatim>\<open>drop_duplicates(subset='id', keep='first')\<close>; \<^verbatim>\<open>astype(str)\<close>.\<close>

definition DataFrame :: "'a list \<Rightarrow> 'b list \<Rightarrow> error + ('a \<times> 'b) list" where
  "DataFrame ids names = (if length ids = length names then Inr (zip ids names) else Inl ValueError)"

fun drop_duplicates_from :: "'a list \<Rightarrow> ('a \<times> 'b) list \<Rightarrow> ('a \<times> 'b) list" where
  "drop_duplicates_from seen [] = []"
| "drop_duplicates_from seen (r # rs) =
     (if fst r \<in> set seen then drop_duplicates_from seen rs
      else r # drop_duplicates_from (fst r # seen) rs)"

definition drop_duplicates_id :: "('a \<times> 'b) list \<Rightarrow> ('a \<times> 'b) list" where
  "drop_duplicates_id df = drop_duplicates_from [] df"

definition astype_str_frame :: "(gene_id \<times> string) list \<Rightarrow> (string \<times> string) list" where
  "astype_str_frame df = map (\<lambda>r. (astype_str (fst r), snd r)) df"

text \<open>Lines 337 to 340: the table of part one. Its identifiers are strings by now, and
  \<^verbatim>\<open>isin\<close> compares them with the receptor identifiers as the ground truth holds
  them.\<close>

definition make_name_df1 ::
  "'g pylib \<Rightarrow> lr_row list \<Rightarrow> gene_id list \<Rightarrow> string list \<Rightarrow> error + (string \<times> string) list" where
  "make_name_df1 L lr_gt total_id total_name =
     (case DataFrame total_id total_name of Inl e \<Rightarrow> Inl e
      | Inr df \<Rightarrow>
          let name_df1 = astype_str_frame (drop_duplicates_id df);
              receptors = list_of_id_set L (map receptor lr_gt)
          in Inr (filter (\<lambda>r. StrId (fst r) \<notin> set receptors) name_df1))"

subsection \<open>Part two: names for noise genes, ligands and receptors\<close>

text \<open>Line 349: \<^verbatim>\<open>set(rdb.columns) - set('motifs')\<close>. A Python set built from a string
  holds its characters.\<close>

definition total_rdb_names :: "rdb_frame \<Rightarrow> string list" where
  "total_rdb_names rdb =
     filter (\<lambda>c. c \<notin> set (map (\<lambda>ch. [ch]) ''motifs'')) (rdb_columns rdb)"

text \<open>\<^verbatim>\<open>list(universe - set(total_name))\<close> of lines 350, 363 and 370.\<close>

definition unused_names :: "'g pylib \<Rightarrow> string list \<Rightarrow> string list \<Rightarrow> string list" where
  "unused_names L universe total_name =
     list_of_name_set L (filter (\<lambda>n. n \<notin> set total_name) universe)"

definition py_sample :: "'g pylib \<Rightarrow> 'g \<Rightarrow> string list \<Rightarrow> nat \<Rightarrow> error + string list \<times> 'g" where
  "py_sample L g population k =
     (if length population < k then Inl ValueError else Inr (sample L g population k))"

text \<open>
  What a call that returns leaves behind: the objects the caller passed as they stand at
  the return, the table of part one, the three samples, the returned table and the state
  of the generator.
\<close>

record 'g run =
  caller_total_id :: "gene_id list"
  caller_total_name :: "string list"
  caller_rdb :: rdb_frame
  caller_grn_gt :: "grn_row list"
  caller_lr_gt :: "lr_row list"
  name_df1 :: "(string \<times> string) list"
  noise_genes_names :: "string list"
  ligand_genes_names :: "string list"
  receptor_names :: "string list"
  name_df :: "(string \<times> string) list"
  rng :: 'g

text \<open>Lines 349 to 386, from the table of part one. \<open>niche_mouse\<close> is the content of
  \<^verbatim>\<open>lr_network_mouse.csv\<close>, \<open>None\<close> when the file cannot be read.\<close>

definition part_two ::
  "'g pylib \<Rightarrow> 'g \<Rightarrow> rdb_frame \<Rightarrow> lr_row list \<Rightarrow> niche_row list option \<Rightarrow> gene_id list \<Rightarrow>
   (string \<times> string) list \<Rightarrow>
   error + (string list \<times> string list \<times> string list \<times> (string \<times> string) list \<times> 'g)" where
  "part_two L g rdb lr_gt niche_mouse noise_ids df1 =
     (let total_name1 = map snd df1;
          total_id1 = map (\<lambda>r. StrId (fst r)) df1;
          rest_rdb_names = unused_names L (total_rdb_names rdb) total_name1
      in
      (case py_sample L g rest_rdb_names (length noise_ids) of Inl e \<Rightarrow> Inl e
       | Inr (noise_names, g1) \<Rightarrow>
      let total_name2 = total_name1 @ noise_names;
          total_id2 = total_id1 @ noise_ids
      in
      (case niche_mouse of None \<Rightarrow> Inl FileNotFoundError
       | Some niche \<Rightarrow>
      let rest_names = unused_names L (map niche_from niche) total_name2;
          ligand_ids = list_of_id_set L (map ligand lr_gt)
      in
      (case py_sample L g1 rest_names (length ligand_ids) of Inl e \<Rightarrow> Inl e
       | Inr (ligand_names, g2) \<Rightarrow>
      let total_name3 = total_name2 @ ligand_names;
          total_id3 = total_id2 @ ligand_ids;
          rest_names' = unused_names L (map niche_to niche) total_name3;
          receptor_ids = list_of_id_set L (map receptor lr_gt)
      in
      (case py_sample L g2 rest_names' (length receptor_ids) of Inl e \<Rightarrow> Inl e
       | Inr (rec_names, g3) \<Rightarrow>
      let total_name4 = total_name3 @ rec_names;
          total_id4 = total_id3 @ receptor_ids
      in
      (case DataFrame total_id4 total_name4 of Inl e \<Rightarrow> Inl e
       | Inr df \<Rightarrow>
      let df' = astype_str_frame (drop_duplicates_id df)
      in if distinct df' then Inr (noise_names, ligand_names, rec_names, df', g3)
         else Inl AssertionError))))))"

subsection \<open>The whole function and the script\<close>

definition assign_run ::
  "'g pylib \<Rightarrow> 'g \<Rightarrow> (gene_id \<rightharpoonup> string) \<Rightarrow> niche_row list option \<Rightarrow>
   gene_id list \<Rightarrow> rdb_frame \<Rightarrow> (string \<rightharpoonup> string) \<Rightarrow> grn_row list \<Rightarrow> lr_row list \<Rightarrow>
   string list \<Rightarrow> gene_id list \<Rightarrow> gene_id list \<Rightarrow> error + 'g run" where
  "assign_run L g tf_id_dir niche_mouse tfs rdb tf_motif_dir grn_gt lr_gt total_name total_id noise_ids =
     (let grn_dir = get_dir L grn_gt tfs in
      (case for_each (target_step L tf_id_dir tf_motif_dir rdb grn_dir) tfs (total_id, total_name) of
         Inl e \<Rightarrow> Inl e
       | Inr (ids, names) \<Rightarrow>
      (case make_name_df1 L lr_gt ids names of Inl e \<Rightarrow> Inl e
       | Inr df1 \<Rightarrow>
      (case part_two L g rdb lr_gt niche_mouse noise_ids df1 of Inl e \<Rightarrow> Inl e
       | Inr (noise_names, ligand_names, rec_names, df, g') \<Rightarrow>
          Inr \<lparr> caller_total_id = ids, caller_total_name = names, caller_rdb = rdb,
                caller_grn_gt = grn_gt, caller_lr_gt = lr_gt, name_df1 = df1,
                noise_genes_names = noise_names, ligand_genes_names = ligand_names,
                receptor_names = rec_names, name_df = df, rng = g' \<rparr>))))"

text \<open>
  The first three arguments are what the function reads besides its parameters: the
  libraries, the state of the random generator, the module-level \<^verbatim>\<open>tf_id_dir\<close> and
  the vocabulary file. The others are the parameters in the source's order.
\<close>

definition assign_gene_names_og ::
  "'g pylib \<Rightarrow> 'g \<Rightarrow> (gene_id \<rightharpoonup> string) \<Rightarrow> niche_row list option \<Rightarrow>
   gene_id list \<Rightarrow> rdb_frame \<Rightarrow> (string \<rightharpoonup> string) \<Rightarrow> grn_row list \<Rightarrow> lr_row list \<Rightarrow>
   string list \<Rightarrow> gene_id list \<Rightarrow> gene_id list \<Rightarrow> error + (string \<times> string) list" where
  "assign_gene_names_og L g tf_id_dir niche_mouse tfs rdb tf_motif_dir grn_gt lr_gt total_name total_id noise_ids =
     (case assign_run L g tf_id_dir niche_mouse tfs rdb tf_motif_dir grn_gt lr_gt total_name total_id noise_ids of
        Inl e \<Rightarrow> Inl e
      | Inr r \<Rightarrow> Inr (name_df r))"

text \<open>Lines 437 to 446 of the script: the two dictionaries, the seeded lists, the call,
  and \<^verbatim>\<open>name_df.to_csv('name_df.csv', index=False)\<close> on a store of files.\<close>

definition dict_zip :: "'k list \<Rightarrow> 'v list \<Rightarrow> ('k \<rightharpoonup> 'v)" where
  "dict_zip ks vs = fold (\<lambda>kv d. d(fst kv \<mapsto> snd kv)) (zip ks vs) Map.empty"

definition main ::
  "'g pylib \<Rightarrow> 'g \<Rightarrow> niche_row list option \<Rightarrow> gene_id list \<Rightarrow> string list \<Rightarrow> string list \<Rightarrow>
   rdb_frame \<Rightarrow> grn_row list \<Rightarrow> lr_row list \<Rightarrow> gene_id list \<Rightarrow>
   (string \<rightharpoonup> (string \<times> string) list) \<Rightarrow> error option \<times> (string \<rightharpoonup> (string \<times> string) list)" where
  "main L g niche_mouse tfs tf_names motif_names rdb grn_gt lr_gt noise_ids files =
     (let tf_motif_dir = dict_zip tf_names motif_names;
          tf_id_dir = dict_zip tfs tf_names;
          total_name = tf_names;
          total_id = tfs
      in case assign_gene_names_og L g tf_id_dir niche_mouse tfs rdb tf_motif_dir grn_gt lr_gt
                total_name total_id noise_ids of
           Inl e \<Rightarrow> (Some e, files)
         | Inr df \<Rightarrow> (None, files(''name_df.csv'' \<mapsto> df)))"

subsection \<open>The objects of the caller\<close>

text \<open>
  The function changes two of its arguments in place, so what a call leaves behind
  depends on which objects the caller passed, and on whether two parameters name the
  same object. The model of this subsection keeps the objects in a store: an address
  is a position in a list of objects, an argument is an address, \<^verbatim>\<open>+=\<close> and
  \<^verbatim>\<open>append\<close> on a list update the object at its address, and
  \<^verbatim>\<open>list(...)\<close> allocates a new object at the end. pandas builds a new frame for
  every selection, \<^verbatim>\<open>drop\<close>, \<^verbatim>\<open>sort_values\<close> and \<^verbatim>\<open>astype\<close> of
  the function, so frames are only read. The elements of a list are identifiers; a name
  is the identifier \<open>StrId\<close> of its string.
\<close>

type_synonym addr = nat

datatype obj = PyList "gene_id list" | RdbFrame rdb_frame | GrnFrame "grn_row list"
  | LrFrame "lr_row list"

type_synonym store = "obj list"

fun list_of :: "obj \<Rightarrow> gene_id list" where
  "list_of (PyList xs) = xs"
| "list_of _ = []"

fun rdb_of :: "obj \<Rightarrow> rdb_frame" where
  "rdb_of (RdbFrame rdb) = rdb"
| "rdb_of _ = \<lparr> gene_columns = [], rdb_rows = [] \<rparr>"

fun grn_of :: "obj \<Rightarrow> grn_row list" where
  "grn_of (GrnFrame gt) = gt"
| "grn_of _ = []"

fun lr_of :: "obj \<Rightarrow> lr_row list" where
  "lr_of (LrFrame lr) = lr"
| "lr_of _ = []"

fun is_list :: "obj \<Rightarrow> bool" where
  "is_list (PyList xs) = True"
| "is_list _ = False"

fun is_rdb :: "obj \<Rightarrow> bool" where
  "is_rdb (RdbFrame rdb) = True"
| "is_rdb _ = False"

fun is_grn :: "obj \<Rightarrow> bool" where
  "is_grn (GrnFrame gt) = True"
| "is_grn _ = False"

fun is_lr :: "obj \<Rightarrow> bool" where
  "is_lr (LrFrame lr) = True"
| "is_lr _ = False"

text \<open>The content of the list at an address, \<^verbatim>\<open>xs += ys\<close> on the list at an address
  (\<^verbatim>\<open>append\<close> is the case of one element), and the allocation of a new list.\<close>

definition list_at :: "store \<Rightarrow> addr \<Rightarrow> gene_id list" where
  "list_at s a = list_of (s ! a)"

definition iadd :: "addr \<Rightarrow> gene_id list \<Rightarrow> store \<Rightarrow> store" where
  "iadd a xs s = s[a := PyList (list_at s a @ xs)]"

definition new_list :: "gene_id list \<Rightarrow> store \<Rightarrow> addr \<times> store" where
  "new_list xs s = (length s, s @ [PyList xs])"

text \<open>The function is embedded for arguments of the types its signature announces.\<close>

definition args_ok :: "store \<Rightarrow> addr \<Rightarrow> addr \<Rightarrow> addr \<Rightarrow> addr \<Rightarrow> addr \<Rightarrow> addr \<Rightarrow> addr \<Rightarrow> bool" where
  "args_ok s a_tfs a_rdb a_grn_gt a_lr_gt a_total_name a_total_id a_noise_ids \<longleftrightarrow>
     a_tfs < length s \<and> is_list (s ! a_tfs) \<and>
     a_rdb < length s \<and> is_rdb (s ! a_rdb) \<and>
     a_grn_gt < length s \<and> is_grn (s ! a_grn_gt) \<and>
     a_lr_gt < length s \<and> is_lr (s ! a_lr_gt) \<and>
     a_total_name < length s \<and> is_list (s ! a_total_name) \<and>
     a_total_id < length s \<and> is_list (s ! a_total_id) \<and>
     a_noise_ids < length s \<and> is_list (s ! a_noise_ids)"

text \<open>Lines 330 to 333 on the list at \<open>total_name\<close>.\<close>

fun match_names_at :: "addr \<Rightarrow> string list \<Rightarrow> nat \<Rightarrow> store \<Rightarrow> store" where
  "match_names_at total_name [] stop s = s"
| "match_names_at total_name (tg # columns) stop s =
     (let s' = (if StrId tg \<notin> set (list_at s total_name) then iadd total_name [StrId tg] s else s)
      in if length (list_at s' total_name) = stop then s'
         else match_names_at total_name columns stop s')"

text \<open>Lines 321 to 333, one pass of the loop. Line 328 extends the list at
  \<open>total_id\<close> before the inner loop reads the list at \<open>total_name\<close>.\<close>

definition target_step_at ::
  "'g pylib \<Rightarrow> (gene_id \<rightharpoonup> string) \<Rightarrow> (string \<rightharpoonup> string) \<Rightarrow> addr \<Rightarrow> (gene_id \<rightharpoonup> gene_id list) \<Rightarrow>
   addr \<Rightarrow> addr \<Rightarrow> gene_id \<Rightarrow> store \<Rightarrow> error + store" where
  "target_step_at L tf_id_dir tf_motif_dir rdb grn_dir total_name total_id tf s =
     (let current_len = length (list_at s total_name) in
      (case tf_id_dir tf of None \<Rightarrow> Inl KeyError | Some tf_name \<Rightarrow>
      (case tf_motif_dir tf_name of None \<Rightarrow> Inl KeyError | Some one_motif \<Rightarrow>
      (case sorted_sub_columns L (rdb_of (s ! rdb)) one_motif of Inl e \<Rightarrow> Inl e | Inr columns \<Rightarrow>
      (case grn_dir tf of None \<Rightarrow> Inl KeyError | Some targets \<Rightarrow>
         let top_num = length targets;
             s1 = iadd total_id targets s
         in Inr (match_names_at total_name columns (current_len + top_num) s1))))))"

text \<open>
  \<^verbatim>\<open>for tf in tfs\<close> of line 320. The iterator of a Python list holds a position and
  compares it with the length the list has at each step, so a list that grows during
  the loop is read to its new end. The loop need not end then; it runs on fuel, and
  \<open>None\<close> is a loop that has not ended when the fuel is used up.
\<close>

fun for_tfs :: "nat \<Rightarrow> (gene_id \<Rightarrow> store \<Rightarrow> error + store) \<Rightarrow> addr \<Rightarrow> nat \<Rightarrow> store \<Rightarrow> (error + store) option" where
  "for_tfs 0 body tfs i s = None"
| "for_tfs (Suc fuel) body tfs i s =
     (if i < length (list_at s tfs)
      then (case body (list_at s tfs ! i) s of
              Inl e \<Rightarrow> Some (Inl e)
            | Inr s' \<Rightarrow> for_tfs fuel body tfs (Suc i) s')
      else Some (Inr s))"

text \<open>\<^verbatim>\<open>list(universe - set(total_name))\<close> of lines 350, 363 and 370 on a list of the
  store.\<close>

definition unused_names_at :: "'g pylib \<Rightarrow> string list \<Rightarrow> gene_id list \<Rightarrow> string list" where
  "unused_names_at L universe total_name =
     list_of_name_set L (filter (\<lambda>n. StrId n \<notin> set total_name) universe)"

text \<open>
  Lines 342 to 386. Lines 342 and 343 bind the local names \<^verbatim>\<open>total_name\<close> and
  \<^verbatim>\<open>total_id\<close> to two new lists; every \<^verbatim>\<open>+=\<close> after them is on these.
  Lines 357, 367 and 374 read their right-hand sides when they are reached.
\<close>

definition part_two_at ::
  "'g pylib \<Rightarrow> 'g \<Rightarrow> addr \<Rightarrow> addr \<Rightarrow> niche_row list option \<Rightarrow> addr \<Rightarrow>
   (string \<times> string) list \<Rightarrow> store \<Rightarrow> error + (string \<times> string) list \<times> store" where
  "part_two_at L g rdb lr_gt niche_mouse noise_ids df1 s =
     (let (total_name, s1) = new_list (map (\<lambda>r. StrId (snd r)) df1) s;
          (total_id, s2) = new_list (map (\<lambda>r. StrId (fst r)) df1) s1;
          rest_rdb_names = unused_names_at L (total_rdb_names (rdb_of (s2 ! rdb))) (list_at s2 total_name)
      in
      (case py_sample L g rest_rdb_names (length (list_at s2 noise_ids)) of Inl e \<Rightarrow> Inl e
       | Inr (noise_names, g1) \<Rightarrow>
      let s3 = iadd total_name (map StrId noise_names) s2;
          s4 = iadd total_id (list_at s3 noise_ids) s3
      in
      (case niche_mouse of None \<Rightarrow> Inl FileNotFoundError
       | Some niche \<Rightarrow>
      let rest_names = unused_names_at L (map niche_from niche) (list_at s4 total_name);
          ligand_ids = list_of_id_set L (map ligand (lr_of (s4 ! lr_gt)))
      in
      (case py_sample L g1 rest_names (length ligand_ids) of Inl e \<Rightarrow> Inl e
       | Inr (ligand_names, g2) \<Rightarrow>
      let s5 = iadd total_name (map StrId ligand_names) s4;
          s6 = iadd total_id ligand_ids s5;
          rest_names' = unused_names_at L (map niche_to niche) (list_at s6 total_name);
          receptor_ids = list_of_id_set L (map receptor (lr_of (s6 ! lr_gt)))
      in
      (case py_sample L g2 rest_names' (length receptor_ids) of Inl e \<Rightarrow> Inl e
       | Inr (rec_names, g3) \<Rightarrow>
      let s7 = iadd total_name (map StrId rec_names) s6;
          s8 = iadd total_id receptor_ids s7
      in
      (case DataFrame (list_at s8 total_id) (list_at s8 total_name) of Inl e \<Rightarrow> Inl e
       | Inr df \<Rightarrow>
      let name_df = map (\<lambda>r. (astype_str (fst r), astype_str (snd r))) (drop_duplicates_id df)
      in if distinct name_df then Inr (name_df, s8) else Inl AssertionError))))))"

text \<open>
  The call. The arguments are addresses; the result is \<open>None\<close> when an argument is
  not of its type or the fuel is used up, and otherwise the raise, or the returned
  table with the store at the return. Line 319 reads the list of regulators once, before
  the loop; line 337 reads the two lists as the loop left them.
\<close>

definition call_assign_gene_names_og ::
  "nat \<Rightarrow> 'g pylib \<Rightarrow> 'g \<Rightarrow> (gene_id \<rightharpoonup> string) \<Rightarrow> niche_row list option \<Rightarrow>
   addr \<Rightarrow> addr \<Rightarrow> (string \<rightharpoonup> string) \<Rightarrow> addr \<Rightarrow> addr \<Rightarrow> addr \<Rightarrow> addr \<Rightarrow> addr \<Rightarrow> store \<Rightarrow>
   (error + (string \<times> string) list \<times> store) option" where
  "call_assign_gene_names_og fuel L g tf_id_dir niche_mouse tfs rdb tf_motif_dir grn_gt lr_gt
      total_name total_id noise_ids s =
     (if \<not> args_ok s tfs rdb grn_gt lr_gt total_name total_id noise_ids then None
      else
      let grn_dir = get_dir L (grn_of (s ! grn_gt)) (list_at s tfs) in
      (case for_tfs fuel (target_step_at L tf_id_dir tf_motif_dir rdb grn_dir total_name total_id)
              tfs 0 s of
         None \<Rightarrow> None
       | Some (Inl e) \<Rightarrow> Some (Inl e)
       | Some (Inr s1) \<Rightarrow>
      (case make_name_df1 L (lr_of (s1 ! lr_gt)) (list_at s1 total_id)
              (map astype_str (list_at s1 total_name)) of
         Inl e \<Rightarrow> Some (Inl e)
       | Inr df1 \<Rightarrow> Some (part_two_at L g rdb lr_gt niche_mouse noise_ids df1 s1))))"

text \<open>
  \<open>appended A s s'\<close>: the store \<open>s'\<close> has the objects of \<open>s\<close>, those outside
  \<open>A\<close> as they were, and every list holds what it held, possibly followed by more.
\<close>

definition appended :: "addr set \<Rightarrow> store \<Rightarrow> store \<Rightarrow> bool" where
  "appended A s s' \<longleftrightarrow>
     length s' = length s \<and>
     (\<forall>b < length s. b \<notin> A \<longrightarrow> s' ! b = s ! b) \<and>
     (\<forall>b < length s. \<exists>ys. list_at s' b = list_at s b @ ys)"

subsection \<open>Instances of the libraries\<close>

text \<open>
  \<open>lib_stable\<close> sorts with a stable sort, lists a set in the order its members were
  added and draws the first \<open>k\<close> positions. \<open>lib_set_reversed\<close> differs in the order
  in which a set of names is listed. \<open>lib_quicksort\<close> differs in the order of rows of
  equal effect, of which the default \<^verbatim>\<open>quicksort\<close> promises none. The instance is
  fitted to the two frames of equal effects used below: it returns a frame of four rows
  with its rows of equal effect in reverse input order, and two rows of equal effect in
  input order. Every other frame it sorts as \<open>lib_stable\<close> does, which the default
  sort need not do. It is one sort among those that \<open>sorts_by_effect_desc\<close> admits;
  the theorems about \<open>get_dir\<close> assume that contract and no instance.
\<close>

definition lib_stable :: "unit pylib" where
  "lib_stable =
     \<lparr> sort_values_effect = sort_key (\<lambda>r. - regulator_effect r),
       sort_values_rank = sort_key snd,
       list_of_name_set = remdups,
       list_of_id_set = remdups,
       sample = (\<lambda>g population k. (take k population, g)) \<rparr>"

definition lib_quicksort :: "unit pylib" where
  "lib_quicksort =
     lib_stable \<lparr> sort_values_effect :=
       (\<lambda>rows. if length rows = 4 then rev (sort_key regulator_effect rows)
                else sort_key (\<lambda>r. - regulator_effect r) rows) \<rparr>"

definition lib_set_reversed :: "unit pylib" where
  "lib_set_reversed = lib_stable \<lparr> list_of_name_set := (\<lambda>xs. rev (remdups xs)) \<rparr>"

subsection \<open>Concrete inputs\<close>

text \<open>A ranking table of three genes and two motifs, a vocabulary of one ligand and one
  receptor name, and the dictionaries of one regulator named \<open>Adf1\<close> and of two.\<close>

definition rdb_ex :: rdb_frame where
  "rdb_ex = \<lparr> gene_columns = [''A'', ''B'', ''C''],
              rdb_rows = [(''m1'', [1, 2, 3]), (''m2'', [3, 1, 2])] \<rparr>"

definition niche_ex :: "niche_row list option" where
  "niche_ex = Some [\<lparr> niche_from = ''L1'', niche_to = ''R1'' \<rparr>]"

definition grn :: "gene_id \<Rightarrow> gene_id \<Rightarrow> real \<Rightarrow> grn_row" where
  "grn reg tg eff = \<lparr> regulator_gene = reg, regulated_gene = tg, regulator_effect = eff \<rparr>"

text \<open>One regulator with two regulated genes, one ligand-receptor pair and one noise
  gene.\<close>

definition tf_id_dir_ex :: "gene_id \<rightharpoonup> string" where
  "tf_id_dir_ex = [IntId 1 \<mapsto> ''Adf1'']"

definition tf_motif_dir_ex :: "string \<rightharpoonup> string" where
  "tf_motif_dir_ex = [''Adf1'' \<mapsto> ''m1'']"

definition grn_gt_ex :: "grn_row list" where
  "grn_gt_ex = [grn (IntId 1) (IntId 2) 0.9, grn (IntId 1) (IntId 3) 0.3]"

definition lr_gt_ex :: "lr_row list" where
  "lr_gt_ex = [\<lparr> ligand = IntId 4, receptor = IntId 5 \<rparr>]"

definition run_ex :: "unit run" where
  "run_ex =
     \<lparr> caller_total_id = [IntId 1, IntId 2, IntId 3],
       caller_total_name = [''Adf1'', ''A'', ''B''],
       caller_rdb = rdb_ex, caller_grn_gt = grn_gt_ex, caller_lr_gt = lr_gt_ex,
       name_df1 = [(''1'', ''Adf1''), (''2'', ''A''), (''3'', ''B'')],
       noise_genes_names = [''C''], ligand_genes_names = [''L1''], receptor_names = [''R1''],
       name_df = [(''1'', ''Adf1''), (''2'', ''A''), (''3'', ''B''), (''gene1'', ''C''),
                  (''4'', ''L1''), (''5'', ''R1'')],
       rng = () \<rparr>"



text \<open>A ranking table with one gene column, one with a gene column labelled \<open>t\<close>, and a
  regulator whose regulated gene is also the receptor of the ligand-receptor pair, with
  integer and with string identifiers.\<close>

definition rdb_one :: rdb_frame where
  "rdb_one = \<lparr> gene_columns = [''A''], rdb_rows = [(''m1'', [1])] \<rparr>"

definition rdb_t :: rdb_frame where
  "rdb_t = \<lparr> gene_columns = [''A'', ''t'', ''B''], rdb_rows = [(''m1'', [1, 2, 3])] \<rparr>"

definition grn_gt_one :: "grn_row list" where
  "grn_gt_one = [grn (IntId 1) (IntId 2) 0.9]"

definition lr_gt_target :: "lr_row list" where
  "lr_gt_target = [\<lparr> ligand = IntId 3, receptor = IntId 2 \<rparr>]"

definition tf_id_dir_str :: "gene_id \<rightharpoonup> string" where
  "tf_id_dir_str = [StrId ''1'' \<mapsto> ''Adf1'']"

definition grn_gt_str :: "grn_row list" where
  "grn_gt_str = [grn (StrId ''1'') (StrId ''2'') 0.9]"

definition lr_gt_str :: "lr_row list" where
  "lr_gt_str = [\<lparr> ligand = StrId ''3'', receptor = StrId ''2'' \<rparr>]"

text \<open>One regulator with four regulated genes, one more than the ranking table has gene
  columns.\<close>

definition grn_gt_many :: "grn_row list" where
  "grn_gt_many = [grn (IntId 1) (IntId 2) 0.9, grn (IntId 1) (IntId 3) 0.7,
                  grn (IntId 1) (IntId 4) 0.5, grn (IntId 1) (IntId 5) 0.3]"

text \<open>A ground truth with a record of regulator 9, which is not passed as a regulator, and
  a ligand-receptor pair whose receptor is the regulator \<open>'1'\<close> itself.\<close>

definition grn_gt_foreign :: "grn_row list" where
  "grn_gt_foreign = [grn (IntId 1) (IntId 2) 0.9, grn (IntId 9) (IntId 3) 0.3]"


text \<open>Two regulators that share their one regulated gene.\<close>

definition tf_id_dir_two :: "gene_id \<rightharpoonup> string" where
  "tf_id_dir_two = [IntId 1 \<mapsto> ''N1'', IntId 2 \<mapsto> ''N2'']"

definition tf_motif_dir_two :: "string \<rightharpoonup> string" where
  "tf_motif_dir_two = [''N1'' \<mapsto> ''m1'', ''N2'' \<mapsto> ''m2'']"

definition grn_gt_shared :: "grn_row list" where
  "grn_gt_shared = [grn (IntId 1) (IntId 3) 0.5, grn (IntId 2) (IntId 3) 0.5]"

text \<open>The objects of the example run in a store, each argument an object of its own, and
  the store at the return of the call on them.\<close>

definition store_ex :: store where
  "store_ex = [PyList [IntId 1], RdbFrame rdb_ex, GrnFrame grn_gt_ex, LrFrame lr_gt_ex,
               PyList [StrId ''Adf1''], PyList [IntId 1], PyList [StrId ''gene1'']]"

definition store_ex_after :: store where
  "store_ex_after =
     [PyList [IntId 1], RdbFrame rdb_ex, GrnFrame grn_gt_ex, LrFrame lr_gt_ex,
      PyList [StrId ''Adf1'', StrId ''A'', StrId ''B''], PyList [IntId 1, IntId 2, IntId 3],
      PyList [StrId ''gene1''],
      PyList [StrId ''Adf1'', StrId ''A'', StrId ''B'', StrId ''C'', StrId ''L1'', StrId ''R1''],
      PyList [StrId ''1'', StrId ''2'', StrId ''3'', StrId ''gene1'', IntId 4, IntId 5]]"

section \<open>Lemmas\<close>

subsection \<open>The loop combinator\<close>

lemma for_each_append:
  "for_each body (xs @ ys) st =
     (case for_each body xs st of Inl e \<Rightarrow> Inl e | Inr st' \<Rightarrow> for_each body ys st')"
  by (induction xs arbitrary: st) (auto split: sum.splits)

subsection \<open>The inner loop\<close>

lemma match_names_appends:
  "\<exists>ys. match_names columns stop total_name = total_name @ ys \<and> distinct ys \<and>
        set ys \<inter> set total_name = {} \<and> set ys \<subseteq> set columns"
proof (induction columns arbitrary: total_name)
  case Nil
  show ?case by simp
next
  case (Cons tg columns)
  show ?case
  proof (cases "tg \<in> set total_name")
    case True
    from Cons.IH[of total_name] obtain ys where
      "match_names columns stop total_name = total_name @ ys" "distinct ys"
      "set ys \<inter> set total_name = {}" "set ys \<subseteq> set columns" by blast
    with True show ?thesis by (auto simp: Let_def)
  next
    case False
    from Cons.IH[of "total_name @ [tg]"] obtain ys where ys:
      "match_names columns stop (total_name @ [tg]) = (total_name @ [tg]) @ ys" "distinct ys"
      "set ys \<inter> set (total_name @ [tg]) = {}" "set ys \<subseteq> set columns" by blast
    show ?thesis
    proof (cases "length (total_name @ [tg]) = stop")
      case True
      with False show ?thesis by (intro exI[of _ "[tg]"]) (simp add: Let_def)
    next
      case stop: False
      with False ys show ?thesis
        by (intro exI[of _ "tg # ys"]) (auto simp: Let_def)
    qed
  qed
qed

lemma match_names_distinct:
  assumes "distinct total_name"
  shows "distinct (match_names columns stop total_name)"
proof -
  from match_names_appends[of columns stop total_name] obtain ys where
    "match_names columns stop total_name = total_name @ ys" "distinct ys"
    "set ys \<inter> set total_name = {}" by blast
  with assms show ?thesis by auto
qed

lemma match_names_length_le:
  "length total_name < stop \<Longrightarrow> length (match_names columns stop total_name) \<le> stop"
  by (induction columns arbitrary: total_name) (auto simp: Let_def)

lemma match_names_length_ge:
  "length total_name \<le> length (match_names columns stop total_name)"
  using match_names_appends[of columns stop total_name] by auto

subsection \<open>The dictionary of \<open>get_dir\<close>\<close>

lemma fold_upd_lookup:
  "fold (\<lambda>reg dir. dir(reg \<mapsto> F reg)) regs m reg =
     (if reg \<in> set regs then Some (F reg) else m reg)"
  by (induction regs arbitrary: m) auto

lemma get_dir_lookup:
  "get_dir L gt regulators reg =
     (if reg \<in> set regulators
      then Some (map regulated_gene (sort_values_effect L (filter (\<lambda>r. regulator_gene r = reg) gt)))
      else None)"
  unfolding get_dir_def Let_def by (simp add: fold_upd_lookup)

subsection \<open>Dropping duplicate identifiers\<close>



lemma drop_duplicates_from_fst:
  "set (map fst (drop_duplicates_from seen rs)) = set (map fst rs) - set seen"
  by (induction rs arbitrary: seen) auto

lemma drop_duplicates_from_distinct_fst:
  "distinct (map fst (drop_duplicates_from seen rs))"
proof (induction rs arbitrary: seen)
  case Nil
  show ?case by simp
next
  case (Cons r rs)
  have "fst r \<notin> set (map fst (drop_duplicates_from (fst r # seen) rs))"
    unfolding drop_duplicates_from_fst by simp
  with Cons.IH show ?case by simp
qed

lemma drop_duplicates_from_subset:
  "set (drop_duplicates_from seen rs) \<subseteq> set rs"
  by (induction rs arbitrary: seen) auto

lemma drop_duplicates_from_distinct_snd:
  "distinct (map snd rs) \<Longrightarrow> distinct (map snd (drop_duplicates_from seen rs))"
proof (induction rs arbitrary: seen)
  case Nil
  show ?case by simp
next
  case (Cons r rs)
  have "snd r \<notin> snd ` set (drop_duplicates_from (fst r # seen) rs)"
    using Cons.prems drop_duplicates_from_subset[of "fst r # seen" rs] by auto
  with Cons show ?case by auto
qed

lemma drop_duplicates_from_cong:
  "set seen = set seen' \<Longrightarrow> drop_duplicates_from seen rs = drop_duplicates_from seen' rs"
proof (induction rs arbitrary: seen seen')
  case Nil
  show ?case by simp
next
  case (Cons r rs)
  have "drop_duplicates_from seen rs = drop_duplicates_from seen' rs"
    by (rule Cons.IH) (rule Cons.prems)
  moreover have "drop_duplicates_from (fst r # seen) rs = drop_duplicates_from (fst r # seen') rs"
    by (rule Cons.IH) (simp add: Cons.prems)
  ultimately show ?case using Cons.prems by simp
qed

lemma drop_duplicates_from_append:
  "drop_duplicates_from seen (xs @ ys) =
     drop_duplicates_from seen xs @ drop_duplicates_from (map fst xs @ seen) ys"
proof (induction xs arbitrary: seen)
  case Nil
  show ?case by simp
next
  case (Cons r xs)
  have 1: "drop_duplicates_from (map fst xs @ fst r # seen) ys
         = drop_duplicates_from (fst r # map fst xs @ seen) ys"
    by (rule drop_duplicates_from_cong) auto
  have 2: "fst r \<in> set seen \<Longrightarrow> drop_duplicates_from (map fst xs @ seen) ys
         = drop_duplicates_from (fst r # map fst xs @ seen) ys"
    by (rule drop_duplicates_from_cong) auto
  show ?case
  proof (cases "fst r \<in> set seen")
    case True
    then show ?thesis using Cons.IH[of seen] 2 by simp
  next
    case False
    then show ?thesis using Cons.IH[of "fst r # seen"] 1 by simp
  qed
qed

subsection \<open>The contracts hold for the instances\<close>

lemma lists_a_set_remdups: "lists_a_set remdups"
  by (simp add: lists_a_set_def)

lemma lists_a_set_rev_remdups: "lists_a_set (\<lambda>xs. rev (remdups xs))"
  by (simp add: lists_a_set_def)

lemma take_as_positions:
  assumes "k \<le> length xs"
  shows "take k xs = map ((!) xs) [0..<k]"
  using assms by (intro nth_equalityI) auto

lemma draws_positions_take: "draws_positions (\<lambda>g population k. (take k population, g))"
  unfolding draws_positions_def
proof (intro allI impI)
  fix g :: 'a and population :: "string list" and k
  assume k: "k \<le> length population"
  show "\<exists>js. length js = k \<and> distinct js \<and> list_all (\<lambda>j. j < length population) js \<and>
          fst (take k population, g) = map ((!) population) js"
    using k by (intro exI[of _ "[0..<k]"]) (auto simp: take_as_positions list_all_iff)
qed

lemma sorts_stable: "sorts_by_effect_desc (sort_key (\<lambda>r. - regulator_effect r))"
proof -
  have "sorted_wrt (\<lambda>a b. regulator_effect b \<le> regulator_effect a)
          (sort_key (\<lambda>r. - regulator_effect r) rows)" for rows :: "grn_row list"
    using sorted_sort_key[of "\<lambda>r. - regulator_effect r" rows]
    by (simp add: sorted_map)
  then show ?thesis by (simp add: sorts_by_effect_desc_def)
qed


subsection \<open>Sampling\<close>

lemma positions_distinct:
  assumes "distinct xs" "distinct js" "list_all (\<lambda>j. j < length xs) js"
  shows "distinct (map ((!) xs) js)" "set (map ((!) xs) js) \<subseteq> set xs"
proof -
  have "inj_on ((!) xs) (set js)"
    using assms by (auto simp: inj_on_def list_all_iff nth_eq_iff_index_eq)
  with assms(2) show "distinct (map ((!) xs) js)" by (simp add: distinct_map)
  show "set (map ((!) xs) js) \<subseteq> set xs"
    using assms(3) by (auto simp: list_all_iff)
qed

lemma py_sample_Inr:
  assumes "py_sample L g population k = Inr (names, g')"
    and "draws_positions (sample L)" and "distinct population"
  shows "length names = k \<and> distinct names \<and> set names \<subseteq> set population"
proof -
  from assms(1) have k: "k \<le> length population" and s: "sample L g population k = (names, g')"
    by (auto simp: py_sample_def split: if_splits)
  from assms(2) k obtain js where js: "length js = k" "distinct js"
    "list_all (\<lambda>j. j < length population) js"
    "fst (sample L g population k) = map ((!) population) js"
    unfolding draws_positions_def by blast
  with s have "names = map ((!) population) js" by simp
  with js positions_distinct[OF assms(3) js(2) js(3)] show ?thesis by simp
qed

lemma unused_names_set:
  assumes "lists_a_set (list_of_name_set L)"
  shows "distinct (unused_names L universe total_name)"
    and "set (unused_names L universe total_name) = set universe - set total_name"
  using assms by (auto simp: lists_a_set_def unused_names_def)

subsection \<open>Part one\<close>

lemma target_step_Inr:
  assumes "target_step L tf_id_dir tf_motif_dir rdb grn_dir tf (ids, names) = Inr (ids', names')"
  obtains targets columns where
    "grn_dir tf = Some targets" "ids' = ids @ targets"
    "names' = match_names columns (length names + length targets) names"
  using assms unfolding target_step_def
  by (auto simp: Let_def split: option.splits sum.splits)

lemma target_loop_Inr:
  assumes "for_each (target_step L tf_id_dir tf_motif_dir rdb grn_dir) tfs (ids, names) = Inr (ids', names')"
  shows "ids' = ids @ concat (map (\<lambda>tf. the (grn_dir tf)) tfs) \<and>
         (\<exists>ys. names' = names @ ys \<and> distinct ys \<and> set ys \<inter> set names = {})"
  using assms
proof (induction tfs arbitrary: ids names)
  case Nil
  then show ?case by simp
next
  case (Cons tf tfs)
  from Cons.prems obtain ids1 names1 where
    step: "target_step L tf_id_dir tf_motif_dir rdb grn_dir tf (ids, names) = Inr (ids1, names1)"
    and rest: "for_each (target_step L tf_id_dir tf_motif_dir rdb grn_dir) tfs (ids1, names1) = Inr (ids', names')"
    by (auto split: sum.splits)
  from step obtain targets columns where t: "grn_dir tf = Some targets" "ids1 = ids @ targets"
    "names1 = match_names columns (length names + length targets) names"
    by (rule target_step_Inr)
  from match_names_appends[of columns "length names + length targets" names] t(3)
  obtain ys1 where ys1: "names1 = names @ ys1" "distinct ys1" "set ys1 \<inter> set names = {}"
    by blast
  from Cons.IH[OF rest] obtain ys2 where ys2:
    "ids' = ids1 @ concat (map (\<lambda>tf. the (grn_dir tf)) tfs)"
    "names' = names1 @ ys2" "distinct ys2" "set ys2 \<inter> set names1 = {}"
    by blast
  have "names' = names @ (ys1 @ ys2) \<and> distinct (ys1 @ ys2) \<and> set (ys1 @ ys2) \<inter> set names = {}"
    using ys1 ys2 by auto
  moreover have "ids' = ids @ concat (map (\<lambda>tf. the (grn_dir tf)) (tf # tfs))"
    using t ys2 by simp
  ultimately show ?case by blast
qed

lemma target_loop_distinct:
  assumes "for_each (target_step L tf_id_dir tf_motif_dir rdb grn_dir) tfs (ids, names) = Inr (ids', names')"
    and "distinct names"
  shows "distinct names'"
  using target_loop_Inr[OF assms(1)] assms(2) by auto

lemma DataFrame_Inr:
  assumes "DataFrame ids names = Inr df"
  shows "length ids = length names" "df = zip ids names" "map fst df = ids" "map snd df = names"
  using assms by (auto simp: DataFrame_def split: if_splits)

lemma astype_str_frame_snd: "map snd (astype_str_frame df) = map snd df"
  by (simp add: astype_str_frame_def comp_def)

lemma astype_str_frame_fst: "map fst (astype_str_frame df) = map astype_str (map fst df)"
  by (simp add: astype_str_frame_def comp_def)

lemma drop_duplicates_id_distinct_snd:
  "distinct (map snd df) \<Longrightarrow> distinct (map snd (drop_duplicates_id df))"
  by (simp add: drop_duplicates_id_def drop_duplicates_from_distinct_snd)

lemma drop_duplicates_id_fst: "set (map fst (drop_duplicates_id df)) = set (map fst df)"
  unfolding drop_duplicates_id_def drop_duplicates_from_fst by simp

lemma make_name_df1_Inr:
  assumes "make_name_df1 L lr_gt ids names = Inr df1"
  shows "length ids = length names"
    and "df1 = filter (\<lambda>r. StrId (fst r) \<notin> set (list_of_id_set L (map receptor lr_gt)))
                 (astype_str_frame (drop_duplicates_id (zip ids names)))"
  using assms unfolding make_name_df1_def
  by (auto simp: Let_def DataFrame_def split: sum.splits if_splits)

lemma make_name_df1_distinct_snd:
  assumes "make_name_df1 L lr_gt ids names = Inr df1" and "distinct names"
  shows "distinct (map snd df1)"
proof -
  have "distinct (map snd (zip ids names))"
    using make_name_df1_Inr(1)[OF assms(1)] assms(2) by simp
  then have "distinct (map snd (astype_str_frame (drop_duplicates_id (zip ids names))))"
    by (simp add: astype_str_frame_snd drop_duplicates_id_distinct_snd)
  then show ?thesis
    unfolding make_name_df1_Inr(2)[OF assms(1)] by (rule distinct_map_filter)
qed

subsection \<open>Part two\<close>

lemma part_two_Inr:
  assumes "part_two L g rdb lr_gt niche_mouse noise_ids df1 = Inr (noise_names, ligand_names, rec_names, df, g')"
  obtains niche g1 g2 where
    "py_sample L g (unused_names L (total_rdb_names rdb) (map snd df1)) (length noise_ids)
       = Inr (noise_names, g1)"
    "niche_mouse = Some niche"
    "py_sample L g1 (unused_names L (map niche_from niche) (map snd df1 @ noise_names))
       (length (list_of_id_set L (map ligand lr_gt))) = Inr (ligand_names, g2)"
    "py_sample L g2 (unused_names L (map niche_to niche) ((map snd df1 @ noise_names) @ ligand_names))
       (length (list_of_id_set L (map receptor lr_gt))) = Inr (rec_names, g')"
    "length (((map (\<lambda>r. StrId (fst r)) df1 @ noise_ids) @ list_of_id_set L (map ligand lr_gt)) @
              list_of_id_set L (map receptor lr_gt))
       = length (((map snd df1 @ noise_names) @ ligand_names) @ rec_names)"
    "df = astype_str_frame (drop_duplicates_id
            (zip (((map (\<lambda>r. StrId (fst r)) df1 @ noise_ids) @ list_of_id_set L (map ligand lr_gt)) @
                    list_of_id_set L (map receptor lr_gt))
                 (((map snd df1 @ noise_names) @ ligand_names) @ rec_names)))"
    "distinct df"
  using assms unfolding part_two_def Let_def DataFrame_def
  by (auto split: sum.splits option.splits if_splits prod.splits)

lemma assign_run_Inr:
  assumes "assign_run L g tf_id_dir niche_mouse tfs rdb tf_motif_dir grn_gt lr_gt total_name total_id noise_ids = Inr r"
  shows "for_each (target_step L tf_id_dir tf_motif_dir rdb (get_dir L grn_gt tfs)) tfs (total_id, total_name)
           = Inr (caller_total_id r, caller_total_name r)"
    and "make_name_df1 L lr_gt (caller_total_id r) (caller_total_name r) = Inr (name_df1 r)"
    and "part_two L g rdb lr_gt niche_mouse noise_ids (name_df1 r)
           = Inr (noise_genes_names r, ligand_genes_names r, receptor_names r, name_df r, rng r)"
    and "caller_rdb r = rdb" "caller_grn_gt r = grn_gt" "caller_lr_gt r = lr_gt"
  using assms unfolding assign_run_def Let_def
  by (auto split: sum.splits prod.splits)

lemma assign_gene_names_og_Inr:
  assumes "assign_gene_names_og L g tf_id_dir niche_mouse tfs rdb tf_motif_dir grn_gt lr_gt
             total_name total_id noise_ids = Inr table"
  obtains r where
    "assign_run L g tf_id_dir niche_mouse tfs rdb tf_motif_dir grn_gt lr_gt
       total_name total_id noise_ids = Inr r" and "name_df r = table"
  using assms by (auto simp: assign_gene_names_og_def split: sum.splits)

subsection \<open>Names of a run that returns\<close>

lemma same_name_same_row:
  assumes "distinct (map snd df)" "(i, n) \<in> set df" "(j, n) \<in> set df"
  shows "i = j"
proof -
  from assms(1) have "inj_on snd (set df)" by (simp add: distinct_map)
  from inj_onD[OF this, of "(i, n)" "(j, n)"] assms(2,3) show ?thesis by simp
qed

lemma run_names:
  assumes d: "distinct total_name"
    and ls: "lists_a_set (list_of_name_set L)"
    and dp: "draws_positions (sample L)"
    and run: "assign_run L g tf_id_dir niche_mouse tfs rdb tf_motif_dir grn_gt lr_gt total_name total_id noise_ids = Inr r"
  shows "distinct (((map snd (name_df1 r) @ noise_genes_names r) @ ligand_genes_names r) @ receptor_names r)"
    and "map snd (name_df r) = map snd (drop_duplicates_id
            (zip (((map (\<lambda>r. StrId (fst r)) (name_df1 r) @ noise_ids) @ list_of_id_set L (map ligand lr_gt)) @
                    list_of_id_set L (map receptor lr_gt))
                 (((map snd (name_df1 r) @ noise_genes_names r) @ ligand_genes_names r) @ receptor_names r)))"
    and "length (((map (\<lambda>r. StrId (fst r)) (name_df1 r) @ noise_ids) @ list_of_id_set L (map ligand lr_gt)) @
              list_of_id_set L (map receptor lr_gt))
       = length (((map snd (name_df1 r) @ noise_genes_names r) @ ligand_genes_names r) @ receptor_names r)"
proof -
  note R = assign_run_Inr[OF run]
  have d1: "distinct (map snd (name_df1 r))"
    using make_name_df1_distinct_snd[OF R(2)] target_loop_distinct[OF R(1) d] by simp
  from R(3) obtain niche :: "niche_row list" and g1 g2 where
    s1: "py_sample L g (unused_names L (total_rdb_names rdb) (map snd (name_df1 r))) (length noise_ids)
       = Inr (noise_genes_names r, g1)"
    and s2: "py_sample L g1 (unused_names L (map niche_from niche) (map snd (name_df1 r) @ noise_genes_names r))
       (length (list_of_id_set L (map ligand lr_gt))) = Inr (ligand_genes_names r, g2)"
    and s3: "py_sample L g2 (unused_names L (map niche_to niche)
          ((map snd (name_df1 r) @ noise_genes_names r) @ ligand_genes_names r))
       (length (list_of_id_set L (map receptor lr_gt))) = Inr (receptor_names r, rng r)"
    and len: "length (((map (\<lambda>r. StrId (fst r)) (name_df1 r) @ noise_ids) @ list_of_id_set L (map ligand lr_gt)) @
              list_of_id_set L (map receptor lr_gt))
       = length (((map snd (name_df1 r) @ noise_genes_names r) @ ligand_genes_names r) @ receptor_names r)"
    and df: "name_df r = astype_str_frame (drop_duplicates_id
            (zip (((map (\<lambda>r. StrId (fst r)) (name_df1 r) @ noise_ids) @ list_of_id_set L (map ligand lr_gt)) @
                    list_of_id_set L (map receptor lr_gt))
                 (((map snd (name_df1 r) @ noise_genes_names r) @ ligand_genes_names r) @ receptor_names r)))"
    by (rule part_two_Inr) (rule that; assumption)
  have n1: "distinct (noise_genes_names r)"
    "set (noise_genes_names r) \<subseteq> set (total_rdb_names rdb) - set (map snd (name_df1 r))"
    using py_sample_Inr[OF s1 dp unused_names_set(1)[OF ls]] unused_names_set(2)[OF ls] by auto
  have n2: "distinct (ligand_genes_names r)"
    "set (ligand_genes_names r) \<subseteq> set (map niche_from niche) - set (map snd (name_df1 r) @ noise_genes_names r)"
    using py_sample_Inr[OF s2 dp unused_names_set(1)[OF ls]] unused_names_set(2)[OF ls] by auto
  have n3: "distinct (receptor_names r)"
    "set (receptor_names r) \<subseteq> set (map niche_to niche)
        - set ((map snd (name_df1 r) @ noise_genes_names r) @ ligand_genes_names r)"
    using py_sample_Inr[OF s3 dp unused_names_set(1)[OF ls]] unused_names_set(2)[OF ls] by auto
  show "distinct (((map snd (name_df1 r) @ noise_genes_names r) @ ligand_genes_names r) @ receptor_names r)"
    using d1 n1 n2 n3 by (simp only: distinct_append set_append) blast
  show "map snd (name_df r) = map snd (drop_duplicates_id
            (zip (((map (\<lambda>r. StrId (fst r)) (name_df1 r) @ noise_ids) @ list_of_id_set L (map ligand lr_gt)) @
                    list_of_id_set L (map receptor lr_gt))
                 (((map snd (name_df1 r) @ noise_genes_names r) @ ligand_genes_names r) @ receptor_names r)))"
    unfolding df by (rule astype_str_frame_snd)
  show "length (((map (\<lambda>r. StrId (fst r)) (name_df1 r) @ noise_ids) @ list_of_id_set L (map ligand lr_gt)) @
              list_of_id_set L (map receptor lr_gt))
       = length (((map snd (name_df1 r) @ noise_genes_names r) @ ligand_genes_names r) @ receptor_names r)"
    by (rule len)
qed

subsection \<open>The instances and the example run\<close>

lemma lib_stable_fields:
  "sort_values_effect lib_stable = sort_key (\<lambda>r. - regulator_effect r)"
  "list_of_name_set lib_stable = remdups"
  "list_of_id_set lib_stable = remdups"
  "sample lib_stable = (\<lambda>g population k. (take k population, g))"
  by (simp_all add: lib_stable_def)

lemma lib_stable_ok:
  "sorts_by_effect_desc (sort_values_effect lib_stable)"
  "lists_a_set (list_of_name_set lib_stable)"
  "lists_a_set (list_of_id_set lib_stable)"
  "draws_positions (sample lib_stable)"
  by (simp_all only: lib_stable_fields sorts_stable lists_a_set_remdups draws_positions_take)


lemma lib_set_reversed_fields:
  "sort_values_effect lib_set_reversed = sort_values_effect lib_stable"
  "sort_values_rank lib_set_reversed = sort_values_rank lib_stable"
  "list_of_id_set lib_set_reversed = list_of_id_set lib_stable"
  "sample lib_set_reversed = sample lib_stable"
  "list_of_name_set lib_set_reversed = (\<lambda>xs. rev (remdups xs))"
  by (simp_all add: lib_set_reversed_def)

lemma run_ex_eval:
  "assign_run lib_stable () tf_id_dir_ex niche_ex [IntId 1] rdb_ex tf_motif_dir_ex grn_gt_ex lr_gt_ex
     [''Adf1''] [IntId 1] [StrId ''gene1''] = Inr run_ex"
  by code_simp

lemma og_ex_eval:
  "assign_gene_names_og lib_stable () tf_id_dir_ex niche_ex [IntId 1] rdb_ex tf_motif_dir_ex
     grn_gt_ex lr_gt_ex [''Adf1''] [IntId 1] [StrId ''gene1''] = Inr (name_df run_ex)"
  by (simp add: assign_gene_names_og_def run_ex_eval)

subsection \<open>Sorting by effect\<close>


subsection \<open>The identifiers of a run that returns\<close>

lemma run_table:
  assumes "assign_run L g tf_id_dir niche_mouse tfs rdb tf_motif_dir grn_gt lr_gt total_name total_id noise_ids = Inr r"
  shows "name_df r = astype_str_frame (drop_duplicates_id
            (zip (((map (\<lambda>r. StrId (fst r)) (name_df1 r) @ noise_ids) @ list_of_id_set L (map ligand lr_gt)) @
                    list_of_id_set L (map receptor lr_gt))
                 (((map snd (name_df1 r) @ noise_genes_names r) @ ligand_genes_names r) @ receptor_names r)))"
    and "length (((map (\<lambda>r. StrId (fst r)) (name_df1 r) @ noise_ids) @ list_of_id_set L (map ligand lr_gt)) @
              list_of_id_set L (map receptor lr_gt))
       = length (((map snd (name_df1 r) @ noise_genes_names r) @ ligand_genes_names r) @ receptor_names r)"
  using assign_run_Inr(3)[OF assms] by (auto elim: part_two_Inr)

lemma targets_of_tfs:
  assumes "sorts_by_effect_desc (sort_values_effect L)"
  shows "set (concat (map (\<lambda>tf. the (get_dir L gt tfs tf)) tfs))
         = regulated_gene ` {r \<in> set gt. regulator_gene r \<in> set tfs}"
proof -
  have "set (sort_values_effect L rows) = set rows" for rows
    using assms unfolding sorts_by_effect_desc_def by (metis mset_eq_setD)
  then have "set (the (get_dir L gt tfs tf)) = regulated_gene ` {r \<in> set gt. regulator_gene r = tf}"
    if "tf \<in> set tfs" for tf
    using that by (simp add: get_dir_lookup)
  then show ?thesis by auto
qed

lemma name_df1_ids:
  assumes "make_name_df1 L lr_gt ids names = Inr df1"
  shows "fst ` set df1 = {s \<in> astype_str ` set ids. StrId s \<notin> set (list_of_id_set L (map receptor lr_gt))}"
proof -
  let ?all = "astype_str_frame (drop_duplicates_id (zip ids names))"
  have "map fst (zip ids names) = ids"
    using make_name_df1_Inr(1)[OF assms] by simp
  then have "set (map fst (drop_duplicates_id (zip ids names))) = set ids"
    by (simp only: drop_duplicates_id_fst)
  then have "set (map fst ?all) = astype_str ` set ids"
    by (simp only: astype_str_frame_fst set_map)
  then have "fst ` set ?all = astype_str ` set ids" by simp
  then show ?thesis
    unfolding make_name_df1_Inr(2)[OF assms] by (auto simp: image_iff) force+
qed

lemma run_ids:
  assumes ls: "lists_a_set (list_of_id_set L)"
    and run: "assign_run L g tf_id_dir niche_mouse tfs rdb tf_motif_dir grn_gt lr_gt total_name total_id noise_ids = Inr r"
  shows "set (map fst (name_df r))
         = astype_str ` (set total_id \<union> set (concat (map (\<lambda>tf. the (get_dir L grn_gt tfs tf)) tfs)) \<union>
                         set noise_ids \<union> ligand ` set lr_gt \<union> receptor ` set lr_gt)"
proof -
  note R = assign_run_Inr[OF run]
  note T = run_table[OF run]
  let ?ids4 = "((map (\<lambda>r. StrId (fst r)) (name_df1 r) @ noise_ids) @ list_of_id_set L (map ligand lr_gt)) @
                    list_of_id_set L (map receptor lr_gt)"
  let ?names4 = "((map snd (name_df1 r) @ noise_genes_names r) @ ligand_genes_names r) @ receptor_names r"
  let ?P = "set total_id \<union> set (concat (map (\<lambda>tf. the (get_dir L grn_gt tfs tf)) tfs))"
  have lig: "set (list_of_id_set L (map ligand lr_gt)) = ligand ` set lr_gt"
    and rec: "set (list_of_id_set L (map receptor lr_gt)) = receptor ` set lr_gt"
    using ls by (simp_all add: lists_a_set_def)
  have ids': "set (caller_total_id r) = ?P"
    using target_loop_Inr[OF R(1)] by auto
  have one: "fst ` set (name_df1 r) = {s \<in> astype_str ` ?P. StrId s \<notin> receptor ` set lr_gt}"
    using name_df1_ids[OF R(2)] ids' rec by simp
  have "map fst (zip ?ids4 ?names4) = ?ids4" using T(2) by (simp only: map_fst_zip)
  then have "set (map fst (drop_duplicates_id (zip ?ids4 ?names4))) = set ?ids4"
    by (simp only: drop_duplicates_id_fst)
  then have "set (map fst (name_df r)) = astype_str ` set ?ids4"
    unfolding T(1) by (simp only: astype_str_frame_fst set_map)
  also have "\<dots> = fst ` set (name_df1 r) \<union> astype_str ` set noise_ids \<union>
                   astype_str ` ligand ` set lr_gt \<union> astype_str ` receptor ` set lr_gt"
    using lig rec by (simp add: image_Un image_image Un_assoc)
  also have "\<dots> = astype_str ` ?P \<union> astype_str ` set noise_ids \<union>
                   astype_str ` ligand ` set lr_gt \<union> astype_str ` receptor ` set lr_gt"
  proof -
    have "s \<in> astype_str ` receptor ` set lr_gt" if "StrId s \<in> receptor ` set lr_gt" for s
      using that by (metis astype_str.simps(2) image_eqI)
    then show ?thesis unfolding one by blast
  qed
  finally show ?thesis by (simp add: image_Un)
qed

lemma targets_explicit:
  "concat (map (\<lambda>tf. the (get_dir L grn_gt tfs tf)) tfs)
   = concat (map (\<lambda>tf. map regulated_gene
                (sort_values_effect L (filter (\<lambda>x. regulator_gene x = tf) grn_gt))) tfs)"
  by (rule arg_cong[where f = concat]) (simp add: get_dir_lookup)

subsection \<open>Errors of part one\<close>

lemma target_step_Inl:
  assumes "target_step L tf_id_dir tf_motif_dir rdb grn_dir tf st = Inl e"
  shows "e = KeyError \<or> e = IndexError"
  using assms unfolding target_step_def sorted_sub_columns_def
  by (auto simp: Let_def split: prod.splits option.splits sum.splits list.splits)

lemma target_loop_Inl:
  assumes "for_each (target_step L tf_id_dir tf_motif_dir rdb grn_dir) tfs st = Inl e"
  shows "e = KeyError \<or> e = IndexError"
  using assms
proof (induction tfs arbitrary: st)
  case Nil
  then show ?case by simp
next
  case (Cons tf tfs)
  show ?case
  proof (cases "target_step L tf_id_dir tf_motif_dir rdb grn_dir tf st")
    case (Inl e')
    with Cons.prems have "e' = e" by simp
    with Inl show ?thesis by (auto dest: target_step_Inl)
  next
    case (Inr st')
    with Cons.prems have "for_each (target_step L tf_id_dir tf_motif_dir rdb grn_dir) tfs st' = Inl e"
      by simp
    then show ?thesis by (rule Cons.IH)
  qed
qed

lemma target_loop_names_le:
  assumes "for_each (target_step L tf_id_dir tf_motif_dir rdb grn_dir) tfs (ids, names) = Inr (ids', names')"
    and "\<forall>tf \<in> set tfs. grn_dir tf \<noteq> Some []"
  shows "length names' + length ids \<le> length ids' + length names"
  using assms
proof (induction tfs arbitrary: ids names)
  case Nil
  then show ?case by simp
next
  case (Cons tf tfs)
  from Cons.prems(1) obtain ids1 names1 where
    step: "target_step L tf_id_dir tf_motif_dir rdb grn_dir tf (ids, names) = Inr (ids1, names1)"
    and rest: "for_each (target_step L tf_id_dir tf_motif_dir rdb grn_dir) tfs (ids1, names1) = Inr (ids', names')"
    by (auto split: sum.splits)
  from step obtain targets columns where t: "grn_dir tf = Some targets" "ids1 = ids @ targets"
    "names1 = match_names columns (length names + length targets) names"
    by (rule target_step_Inr)
  from t(1) Cons.prems(2) have "targets \<noteq> []" by auto
  then have "length names < length names + length targets" by simp
  from match_names_length_le[OF this, of columns] t
  have 1: "length names1 + length ids \<le> length ids1 + length names" by simp
  from Cons.IH[OF rest] Cons.prems(2)
  have 2: "length names' + length ids1 \<le> length ids' + length names1" by simp
  from 1 2 show ?case by linarith
qed

lemma get_dir_nonempty:
  assumes "sorts_by_effect_desc (sort_values_effect L)"
    and "set tfs \<subseteq> regulator_gene ` set grn_gt"
  shows "\<forall>tf \<in> set tfs. get_dir L grn_gt tfs tf \<noteq> Some []"
proof
  fix tf assume tf: "tf \<in> set tfs"
  with assms(2) have "filter (\<lambda>r. regulator_gene r = tf) grn_gt \<noteq> []"
    by (auto simp: filter_empty_conv)
  moreover have "mset (sort_values_effect L rows) = mset rows" for rows
    using assms(1) by (simp add: sorts_by_effect_desc_def)
  ultimately have "sort_values_effect L (filter (\<lambda>r. regulator_gene r = tf) grn_gt) \<noteq> []"
    by (metis mset_zero_iff)
  with tf show "get_dir L grn_gt tfs tf \<noteq> Some []" by (simp add: get_dir_lookup)
qed

lemma assign_Inl_of_loop:
  assumes "for_each (target_step L tf_id_dir tf_motif_dir rdb (get_dir L grn_gt tfs)) tfs (total_id, total_name) = Inl e"
  shows "assign_gene_names_og L g tf_id_dir niche_mouse tfs rdb tf_motif_dir grn_gt lr_gt total_name total_id noise_ids = Inl e"
  using assms by (simp add: assign_gene_names_og_def assign_run_def)

lemma assign_Inl_of_lengths:
  assumes "for_each (target_step L tf_id_dir tf_motif_dir rdb (get_dir L grn_gt tfs)) tfs (total_id, total_name) = Inr (ids, names)"
    and "length ids \<noteq> length names"
  shows "assign_gene_names_og L g tf_id_dir niche_mouse tfs rdb tf_motif_dir grn_gt lr_gt total_name total_id noise_ids = Inl ValueError"
  using assms by (simp add: assign_gene_names_og_def assign_run_def make_name_df1_def DataFrame_def)

subsection \<open>The rows of part one in the returned table\<close>

lemma drop_duplicates_from_map_inj:
  assumes "inj f"
  shows "drop_duplicates_from (map f seen) (map (\<lambda>r. (f (fst r), snd r)) rs)
         = map (\<lambda>r. (f (fst r), snd r)) (drop_duplicates_from seen rs)"
proof (induction rs arbitrary: seen)
  case Nil
  show ?case by simp
next
  case (Cons r rs)
  have "f (fst r) \<in> f ` set seen \<longleftrightarrow> fst r \<in> set seen"
    using assms by (auto dest: injD)
  then show ?case using Cons.IH[of seen] Cons.IH[of "fst r # seen"] by simp
qed

lemma astype_str_frame_StrId:
  "astype_str_frame (map (\<lambda>r. (StrId (fst r), snd r)) df) = df"
  by (simp add: astype_str_frame_def comp_def)

lemma zip_StrId_rows:
  "zip (map (\<lambda>r. StrId (fst r)) df) (map snd df) = map (\<lambda>r. (StrId (fst r), snd r)) df"
  by (induction df) auto

lemma run_table_prefix:
  assumes "assign_run L g tf_id_dir niche_mouse tfs rdb tf_motif_dir grn_gt lr_gt total_name total_id noise_ids = Inr r"
  shows "take (length (drop_duplicates_id (name_df1 r))) (name_df r) = drop_duplicates_id (name_df1 r)"
proof -
  let ?rows1 = "map (\<lambda>r. (StrId (fst r), snd r)) (name_df1 r)"
  let ?later_ids = "noise_ids @ list_of_id_set L (map ligand lr_gt) @ list_of_id_set L (map receptor lr_gt)"
  let ?later_names = "noise_genes_names r @ ligand_genes_names r @ receptor_names r"
  have z: "zip (((map (\<lambda>r. StrId (fst r)) (name_df1 r) @ noise_ids) @ list_of_id_set L (map ligand lr_gt)) @
                    list_of_id_set L (map receptor lr_gt))
               (((map snd (name_df1 r) @ noise_genes_names r) @ ligand_genes_names r) @ receptor_names r)
           = ?rows1 @ zip ?later_ids ?later_names"
    by (simp add: zip_StrId_rows)
  have "inj StrId" by (simp add: inj_on_def)
  from drop_duplicates_from_map_inj[OF this, of "[]" "name_df1 r"]
  have d: "drop_duplicates_from [] ?rows1 = map (\<lambda>r. (StrId (fst r), snd r)) (drop_duplicates_id (name_df1 r))"
    by (simp add: drop_duplicates_id_def)
  have "name_df r = drop_duplicates_id (name_df1 r)
          @ astype_str_frame (drop_duplicates_from (map fst ?rows1 @ []) (zip ?later_ids ?later_names))"
    unfolding run_table(1)[OF assms] z drop_duplicates_id_def[of "?rows1 @ zip ?later_ids ?later_names"]
      drop_duplicates_from_append d
    by (simp add: astype_str_frame_def comp_def)
  then show ?thesis by simp
qed

lemma part_one_determined:
  assumes "sort_values_effect L = sort_values_effect L'"
    and "sort_values_rank L = sort_values_rank L'"
  shows "get_dir L gt regs = get_dir L' gt regs"
    and "target_step L tf_id_dir tf_motif_dir rdb grn_dir = target_step L' tf_id_dir tf_motif_dir rdb grn_dir"
proof -
  show "get_dir L gt regs = get_dir L' gt regs"
    using assms(1) by (simp add: get_dir_def)
  have "sorted_sub_columns L rdb m = sorted_sub_columns L' rdb m" for m
    using assms(2) by (simp add: sorted_sub_columns_def split: list.splits)
  then show "target_step L tf_id_dir tf_motif_dir rdb grn_dir = target_step L' tf_id_dir tf_motif_dir rdb grn_dir"
    by (intro ext) (simp add: target_step_def split: prod.splits option.splits)
qed

lemma make_name_df1_determined:
  assumes "lists_a_set (list_of_id_set L)" "lists_a_set (list_of_id_set L')"
  shows "make_name_df1 L lr_gt ids names = make_name_df1 L' lr_gt ids names"
proof -
  have "set (list_of_id_set L xs) = set (list_of_id_set L' xs)" for xs
    using assms by (simp add: lists_a_set_def)
  then show ?thesis by (simp add: make_name_df1_def Let_def split: sum.splits)
qed





subsection \<open>The store\<close>

lemma length_iadd: "length (iadd a xs s) = length s"
  by (simp add: iadd_def)

lemma iadd_other: "b \<noteq> a \<Longrightarrow> iadd a xs s ! b = s ! b"
  by (simp add: iadd_def)

lemma list_at_iadd:
  "list_at (iadd a xs s) b = (if b = a \<and> a < length s then list_at s a @ xs else list_at s b)"
proof (cases "a < length s")
  case True
  then show ?thesis by (simp add: iadd_def list_at_def nth_list_update)
next
  case False
  then have "iadd a xs s = s" by (simp add: iadd_def list_update_beyond)
  with False show ?thesis by simp
qed

lemma appended_refl: "appended A s s"
  by (simp add: appended_def)

lemma appended_trans:
  assumes "appended A s s'" and "appended A s' s''"
  shows "appended A s s''"
proof -
  have "\<exists>ys. list_at s'' b = list_at s b @ ys" if "b < length s" for b
  proof -
    from assms that obtain ys zs where "list_at s' b = list_at s b @ ys"
      "list_at s'' b = list_at s' b @ zs"
      unfolding appended_def by metis
    then have "list_at s'' b = list_at s b @ (ys @ zs)" by simp
    then show ?thesis by blast
  qed
  with assms show ?thesis unfolding appended_def by simp
qed

lemma appended_mono: "appended A s s' \<Longrightarrow> A \<subseteq> B \<Longrightarrow> appended B s s'"
  unfolding appended_def by blast

lemma appended_iadd: "appended {a} s (iadd a xs s)"
  unfolding appended_def by (simp add: length_iadd iadd_other list_at_iadd)

lemma appended_match_names_at: "appended {a} s (match_names_at a columns stop s)"
proof (induction columns arbitrary: s)
  case Nil
  show ?case by (simp add: appended_refl)
next
  case (Cons tg columns)
  let ?s' = "if StrId tg \<notin> set (list_at s a) then iadd a [StrId tg] s else s"
  have 1: "appended {a} s ?s'" by (simp add: appended_refl appended_iadd)
  show ?case
  proof (cases "length (list_at ?s' a) = stop")
    case True
    then have "match_names_at a (tg # columns) stop s = ?s'" by (simp add: Let_def)
    with 1 show ?thesis by simp
  next
    case False
    then have "match_names_at a (tg # columns) stop s = match_names_at a columns stop ?s'"
      by (simp add: Let_def)
    with appended_trans[OF 1 Cons.IH[of ?s']] show ?thesis by simp
  qed
qed

lemma appended_target_step_at:
  assumes "target_step_at L tf_id_dir tf_motif_dir rdb grn_dir total_name total_id tf s = Inr s'"
  shows "appended {total_id, total_name} s s'"
proof -
  from assms obtain targets columns where
    s': "s' = match_names_at total_name columns
                (length (list_at s total_name) + length targets) (iadd total_id targets s)"
    unfolding target_step_def target_step_at_def
    by (auto simp: Let_def split: option.splits sum.splits)
  have "appended {total_id, total_name} s (iadd total_id targets s)"
    by (rule appended_mono[OF appended_iadd]) simp
  moreover have "appended {total_id, total_name} (iadd total_id targets s) s'"
    unfolding s' by (rule appended_mono[OF appended_match_names_at]) simp
  ultimately show ?thesis by (rule appended_trans)
qed

lemma appended_for_tfs:
  assumes "for_tfs fuel body tfs i s = Some (Inr s')"
    and "\<And>tf s s'. body tf s = Inr s' \<Longrightarrow> appended A s s'"
  shows "appended A s s'"
  using assms(1)
proof (induction fuel arbitrary: i s)
  case 0
  then show ?case by simp
next
  case (Suc fuel)
  show ?case
  proof (cases "i < length (list_at s tfs)")
    case False
    with Suc.prems have "s' = s" by simp
    then show ?thesis by (simp add: appended_refl)
  next
    case True
    with Suc.prems obtain s1 where b: "body (list_at s tfs ! i) s = Inr s1"
      and r: "for_tfs fuel body tfs (Suc i) s1 = Some (Inr s')"
      by (auto split: sum.splits)
    from appended_trans[OF assms(2)[OF b] Suc.IH[OF r]] show ?thesis .
  qed
qed

lemma part_two_at_keeps:
  assumes "part_two_at L g rdb lr_gt niche_mouse noise_ids df1 s = Inr (table, s')"
  shows "take (length s) s' = s" and "length s \<le> length s'"
  using assms unfolding part_two_at_def new_list_def iadd_def Let_def
  by (auto split: sum.splits option.splits prod.splits if_splits)


subsection \<open>The loop on the store and the loop on two lists\<close>

lemma match_names_at_sim:
  assumes "a < length s" and "list_at s a = map StrId names"
  shows "list_at (match_names_at a columns stop s) a = map StrId (match_names columns stop names)"
  using assms
proof (induction columns arbitrary: s names)
  case Nil
  then show ?case by simp
next
  case (Cons tg columns)
  let ?s' = "if StrId tg \<notin> set (list_at s a) then iadd a [StrId tg] s else s"
  let ?names' = "if tg \<notin> set names then names @ [tg] else names"
  have mem: "StrId tg \<in> set (list_at s a) \<longleftrightarrow> tg \<in> set names"
    unfolding Cons.prems(2) by auto
  have l: "list_at ?s' a = map StrId ?names'"
    using Cons.prems mem by (simp add: list_at_iadd)
  have len: "a < length ?s'" using Cons.prems(1) by (simp add: length_iadd)
  show ?case
  proof (cases "length ?names' = stop")
    case True
    then have "match_names_at a (tg # columns) stop s = ?s'"
      "match_names (tg # columns) stop names = ?names'"
      using l by (simp_all add: Let_def)
    with l show ?thesis by simp
  next
    case False
    then have "match_names_at a (tg # columns) stop s = match_names_at a columns stop ?s'"
      "match_names (tg # columns) stop names = match_names columns stop ?names'"
      using l by (simp_all add: Let_def)
    with Cons.IH[OF len l] show ?thesis by simp
  qed
qed

lemma target_step_at_sim:
  assumes step: "target_step_at L tf_id_dir tf_motif_dir rdb grn_dir total_name total_id tf s = Inr s'"
    and ne: "total_id \<noteq> total_name"
    and lt: "total_id < length s" "total_name < length s"
    and names: "list_at s total_name = map StrId names"
  shows "\<exists>names'. target_step L tf_id_dir tf_motif_dir (rdb_of (s ! rdb)) grn_dir tf
                      (list_at s total_id, names) = Inr (list_at s' total_id, names') \<and>
                  list_at s' total_name = map StrId names'"
proof -
  from step obtain tf_name one_motif targets columns where
    d: "tf_id_dir tf = Some tf_name" "tf_motif_dir tf_name = Some one_motif"
       "sorted_sub_columns L (rdb_of (s ! rdb)) one_motif = Inr columns" "grn_dir tf = Some targets"
    and s': "s' = match_names_at total_name columns
                (length (list_at s total_name) + length targets) (iadd total_id targets s)"
    unfolding target_step_at_def
    by (auto simp: Let_def split: option.splits sum.splits)
  let ?s1 = "iadd total_id targets s"
  have n1: "list_at ?s1 total_name = map StrId names"
    using ne names by (simp add: list_at_iadd)
  have i1: "list_at ?s1 total_id = list_at s total_id @ targets"
    using lt by (simp add: list_at_iadd)
  have l1: "total_name < length ?s1" using lt by (simp add: length_iadd)
  have "appended {total_name} ?s1 s'" unfolding s' by (rule appended_match_names_at)
  then have "s' ! total_id = ?s1 ! total_id"
    using ne lt unfolding appended_def by (simp add: length_iadd)
  then have ids: "list_at s' total_id = list_at s total_id @ targets"
    using i1 by (simp add: list_at_def)
  have nm: "list_at s' total_name
            = map StrId (match_names columns (length names + length targets) names)"
    unfolding s' using match_names_at_sim[OF l1 n1] names by simp
  have "target_step L tf_id_dir tf_motif_dir (rdb_of (s ! rdb)) grn_dir tf (list_at s total_id, names)
        = Inr (list_at s total_id @ targets, match_names columns (length names + length targets) names)"
    using d by (simp add: target_step_def)
  with ids nm show ?thesis by simp
qed

lemma for_tfs_sim:
  assumes run: "for_tfs fuel (target_step_at L tf_id_dir tf_motif_dir rdb grn_dir total_name total_id)
                  tfs i s = Some (Inr s')"
    and ne: "tfs \<noteq> total_id" "tfs \<noteq> total_name" "total_id \<noteq> total_name"
            "rdb \<noteq> total_id" "rdb \<noteq> total_name"
    and lt: "tfs < length s" "rdb < length s" "total_id < length s" "total_name < length s"
    and names: "list_at s total_name = map StrId names"
  shows "\<exists>names'. for_each (target_step L tf_id_dir tf_motif_dir (rdb_of (s ! rdb)) grn_dir)
                      (drop i (list_at s tfs)) (list_at s total_id, names)
                    = Inr (list_at s' total_id, names') \<and>
                  list_at s' total_name = map StrId names'"
  using run lt names
proof (induction fuel arbitrary: i s names)
  case 0
  then show ?case by simp
next
  case (Suc fuel)
  let ?body = "target_step_at L tf_id_dir tf_motif_dir rdb grn_dir total_name total_id"
  show ?case
  proof (cases "i < length (list_at s tfs)")
    case False
    with Suc.prems(1) have "s' = s" by simp
    with False Suc.prems(6) show ?thesis by simp
  next
    case True
    with Suc.prems(1) obtain s1 where b: "?body (list_at s tfs ! i) s = Inr s1"
      and r: "for_tfs fuel ?body tfs (Suc i) s1 = Some (Inr s')"
      by (auto split: sum.splits)
    from target_step_at_sim[OF b ne(3) Suc.prems(4,5,6)] obtain names1 where
      p: "target_step L tf_id_dir tf_motif_dir (rdb_of (s ! rdb)) grn_dir (list_at s tfs ! i)
            (list_at s total_id, names) = Inr (list_at s1 total_id, names1)"
      and n1: "list_at s1 total_name = map StrId names1" by blast
    have a: "appended {total_id, total_name} s s1" by (rule appended_target_step_at[OF b])
    then have len: "length s1 = length s" and tfs1: "s1 ! tfs = s ! tfs" and rdb1: "s1 ! rdb = s ! rdb"
      using ne Suc.prems(2,3) unfolding appended_def by simp_all
    from Suc.IH[OF r _ _ _ _ n1] Suc.prems(2,3,4,5) len obtain names' where
      q: "for_each (target_step L tf_id_dir tf_motif_dir (rdb_of (s1 ! rdb)) grn_dir)
            (drop (Suc i) (list_at s1 tfs)) (list_at s1 total_id, names1)
          = Inr (list_at s' total_id, names')"
      and n': "list_at s' total_name = map StrId names'" by auto
    have "drop i (list_at s tfs) = list_at s tfs ! i # drop (Suc i) (list_at s tfs)"
      using True by (simp add: Cons_nth_drop_Suc)
    moreover have "list_at s1 tfs = list_at s tfs" using tfs1 by (simp add: list_at_def)
    ultimately have "for_each (target_step L tf_id_dir tf_motif_dir (rdb_of (s ! rdb)) grn_dir)
            (drop i (list_at s tfs)) (list_at s total_id, names) = Inr (list_at s' total_id, names')"
      using p q rdb1 by simp
    with n' show ?thesis by blast
  qed
qed

lemma for_tfs_enough_fuel:
  assumes "tfs \<noteq> total_id" "tfs \<noteq> total_name" "tfs < length s"
    and "length (list_at s tfs) - i < fuel"
  shows "for_tfs fuel (target_step_at L tf_id_dir tf_motif_dir rdb grn_dir total_name total_id)
           tfs i s \<noteq> None"
  using assms(3,4)
proof (induction fuel arbitrary: i s)
  case 0
  then show ?case by simp
next
  case (Suc fuel)
  let ?body = "target_step_at L tf_id_dir tf_motif_dir rdb grn_dir total_name total_id"
  show ?case
  proof (cases "i < length (list_at s tfs)")
    case False
    then show ?thesis by simp
  next
    case True
    show ?thesis
    proof (cases "?body (list_at s tfs ! i) s")
      case (Inl e)
      with True show ?thesis by simp
    next
      case (Inr s1)
      from appended_target_step_at[OF Inr] assms(1,2) Suc.prems(1)
      have "length s1 = length s" "s1 ! tfs = s ! tfs" unfolding appended_def by simp_all
      then have "tfs < length s1" "length (list_at s1 tfs) - Suc i < fuel"
        using Suc.prems True by (simp_all add: list_at_def)
      from Suc.IH[OF this] Inr True show ?thesis by simp
    qed
  qed
qed


lemma target_step_at_ids:
  assumes step: "target_step_at L tf_id_dir tf_motif_dir rdb grn_dir total_name total_id tf s = Inr s'"
    and ne: "total_id \<noteq> total_name"
    and lt: "total_id < length s"
  shows "list_at s' total_id = list_at s total_id @ the (grn_dir tf)"
proof -
  from step obtain targets columns where
    d: "grn_dir tf = Some targets"
    and s': "s' = match_names_at total_name columns
                (length (list_at s total_name) + length targets) (iadd total_id targets s)"
    unfolding target_step_at_def
    by (auto simp: Let_def split: option.splits sum.splits)
  let ?s1 = "iadd total_id targets s"
  have i1: "list_at ?s1 total_id = list_at s total_id @ targets"
    using lt by (simp add: list_at_iadd)
  have "appended {total_name} ?s1 s'" unfolding s' by (rule appended_match_names_at)
  then have "s' ! total_id = ?s1 ! total_id"
    using ne lt unfolding appended_def by (simp add: length_iadd)
  then show ?thesis using i1 d by (simp add: list_at_def)
qed

lemma for_tfs_ids:
  assumes run: "for_tfs fuel (target_step_at L tf_id_dir tf_motif_dir rdb grn_dir total_name total_id)
                  tfs i s = Some (Inr s')"
    and ne: "tfs \<noteq> total_id" "tfs \<noteq> total_name" "total_id \<noteq> total_name"
    and lt: "tfs < length s" "total_id < length s"
  shows "list_at s' total_id
         = list_at s total_id @ concat (map (\<lambda>tf. the (grn_dir tf)) (drop i (list_at s tfs)))"
  using run lt
proof (induction fuel arbitrary: i s)
  case 0
  then show ?case by simp
next
  case (Suc fuel)
  let ?body = "target_step_at L tf_id_dir tf_motif_dir rdb grn_dir total_name total_id"
  show ?case
  proof (cases "i < length (list_at s tfs)")
    case False
    with Suc.prems(1) have "s' = s" by simp
    with False show ?thesis by simp
  next
    case True
    with Suc.prems(1) obtain s1 where b: "?body (list_at s tfs ! i) s = Inr s1"
      and r: "for_tfs fuel ?body tfs (Suc i) s1 = Some (Inr s')"
      by (auto split: sum.splits)
    have a: "appended {total_id, total_name} s s1" by (rule appended_target_step_at[OF b])
    then have len: "length s1 = length s" and tfs1: "s1 ! tfs = s ! tfs"
      using ne Suc.prems(2) unfolding appended_def by simp_all
    have l1: "list_at s1 tfs = list_at s tfs" using tfs1 by (simp add: list_at_def)
    have "list_at s' total_id = list_at s1 total_id
            @ concat (map (\<lambda>tf. the (grn_dir tf)) (drop (Suc i) (list_at s1 tfs)))"
      using Suc.IH[OF r] Suc.prems(2,3) len by simp
    moreover have "drop i (list_at s tfs) = list_at s tfs ! i # drop (Suc i) (list_at s tfs)"
      using True by (simp add: Cons_nth_drop_Suc)
    ultimately show ?thesis
      using target_step_at_ids[OF b ne(3) Suc.prems(3)] l1 by simp
  qed
qed

subsection \<open>The call\<close>

lemma call_Inr:
  assumes "call_assign_gene_names_og fuel L g tf_id_dir niche_mouse tfs rdb tf_motif_dir grn_gt lr_gt
             total_name total_id noise_ids s = Some (Inr (table, s'))"
  shows "\<exists>s1 df1.
           args_ok s tfs rdb grn_gt lr_gt total_name total_id noise_ids \<and>
           for_tfs fuel (target_step_at L tf_id_dir tf_motif_dir rdb
               (get_dir L (grn_of (s ! grn_gt)) (list_at s tfs)) total_name total_id) tfs 0 s
             = Some (Inr s1) \<and>
           make_name_df1 L (lr_of (s1 ! lr_gt)) (list_at s1 total_id)
               (map astype_str (list_at s1 total_name)) = Inr df1 \<and>
           part_two_at L g rdb lr_gt niche_mouse noise_ids df1 s1 = Inr (table, s')"
  using assms unfolding call_assign_gene_names_og_def Let_def
  by (auto split: if_splits option.splits sum.splits)

lemma call_returns_with_fuel:
  assumes "args_ok s tfs rdb grn_gt lr_gt total_name total_id noise_ids"
    and "tfs \<noteq> total_id" "tfs \<noteq> total_name"
    and "length (list_at s tfs) < fuel"
  shows "call_assign_gene_names_og fuel L g tf_id_dir niche_mouse tfs rdb tf_motif_dir grn_gt lr_gt
           total_name total_id noise_ids s \<noteq> None"
proof -
  have "tfs < length s" using assms(1) by (simp add: args_ok_def)
  from for_tfs_enough_fuel[OF assms(2,3) this, of 0 fuel] assms(4)
  have "for_tfs fuel (target_step_at L tf_id_dir tf_motif_dir rdb
               (get_dir L (grn_of (s ! grn_gt)) (list_at s tfs)) total_name total_id) tfs 0 s \<noteq> None"
    by simp
  then show ?thesis using assms(1) unfolding call_assign_gene_names_og_def Let_def
    by (auto split: option.splits sum.splits)
qed

subsection \<open>The call on the store and the function on values\<close>

lemma unused_names_at_StrId:
  "set total_name = StrId ` set names \<Longrightarrow> unused_names_at L universe total_name = unused_names L universe names"
  unfolding unused_names_at_def unused_names_def
  by (rule arg_cong[where f = "list_of_name_set L"]) (auto intro!: filter_cong)

lemma drop_duplicates_from_map_snd:
  "drop_duplicates_from seen (map (\<lambda>r. (fst r, f (snd r))) df)
   = map (\<lambda>r. (fst r, f (snd r))) (drop_duplicates_from seen df)"
  by (induction df arbitrary: seen) simp_all

lemma zip_map_StrId:
  "zip ids (map f names) = map (\<lambda>r. (fst r, f (snd r))) (zip ids names)"
  by (simp add: zip_map2 case_prod_beta)

lemma final_frame_StrId:
  "map (\<lambda>r. (astype_str (fst r), astype_str (snd r))) (drop_duplicates_id (zip ids (map StrId names)))
   = astype_str_frame (drop_duplicates_id (zip ids names))"
  unfolding drop_duplicates_id_def astype_str_frame_def zip_map_StrId drop_duplicates_from_map_snd
  by simp

lemma iadd_fst_new:
  "iadd (length s) xs (s @ [PyList a, PyList b]) = s @ [PyList (a @ xs), PyList b]"
  by (simp add: iadd_def list_at_def)

lemma iadd_snd_new:
  "iadd (Suc (length s)) xs (s @ [PyList a, PyList b]) = s @ [PyList a, PyList (b @ xs)]"
  by (simp add: iadd_def list_at_def nth_append list_update_append)

lemma read_new:
  "list_at (s @ [PyList a, PyList b]) (length s) = a"
  "list_at (s @ [PyList a, PyList b]) (Suc (length s)) = b"
  by (simp_all add: list_at_def nth_append)

lemma read_old:
  "x < length s \<Longrightarrow> (s @ t) ! x = s ! x"
  "x < length s \<Longrightarrow> list_at (s @ t) x = list_at s x"
  by (simp_all add: list_at_def nth_append)

lemma unused_names_at_app:
  "unused_names_at L universe (map (\<lambda>r. StrId (snd r)) df1 @ map StrId names)
   = unused_names L universe (map snd df1 @ names)"
  by (rule unused_names_at_StrId) auto

lemma final_frame_app:
  "length ids = length df1 + length names \<Longrightarrow>
   map (\<lambda>r. (astype_str (fst r), astype_str (snd r)))
     (drop_duplicates_id (zip ids (map (\<lambda>r. StrId (snd r)) df1 @ map StrId names)))
   = astype_str_frame (drop_duplicates_id (zip ids (map snd df1 @ names)))"
  using final_frame_StrId[of ids "map snd df1 @ names"] by (simp add: comp_def)

lemma part_two_at_eq:
  assumes lt: "rdb < length s" "lr_gt < length s" "noise_ids < length s"
  shows "map_sum id fst (part_two_at L g rdb lr_gt niche_mouse noise_ids df1 s)
         = map_sum id (\<lambda>r. fst (snd (snd (snd r))))
             (part_two L g (rdb_of (s ! rdb)) (lr_of (s ! lr_gt)) niche_mouse (list_at s noise_ids) df1)"
proof -
  have u0: "unused_names_at L universe (map (\<lambda>r. StrId (snd r)) df1)
            = unused_names L universe (map snd df1)" for universe
    using unused_names_at_app[of L universe df1 "[]"] by simp
  have u1: "unused_names_at L universe (map (\<lambda>r. StrId (snd r)) df1 @ map StrId a @ map StrId b)
            = unused_names L universe (map snd df1 @ a @ b)" for universe a b
    using unused_names_at_app[of L universe df1 "a @ b"] by simp
  have f: "map (\<lambda>r. (astype_str (fst r), astype_str (snd r)))
             (drop_duplicates_id (zip ids (map (\<lambda>r. StrId (snd r)) df1 @ map StrId a @ map StrId b @ map StrId c)))
           = astype_str_frame (drop_duplicates_id (zip ids (map snd df1 @ a @ b @ c)))" for ids a b c
    using final_frame_StrId[of ids "map snd df1 @ a @ b @ c"] by (simp add: comp_def)
  show ?thesis
    unfolding part_two_at_def part_two_def new_list_def Let_def
    using lt
    by (simp add: iadd_fst_new iadd_snd_new read_new read_old u0 u1 unused_names_at_app f
          DataFrame_def
          del: zip_append
          split: sum.splits option.splits prod.splits)
qed

lemma call_table_is_function_table:
  assumes call: "call_assign_gene_names_og fuel L g tf_id_dir niche_mouse tfs rdb tf_motif_dir
                   grn_gt lr_gt total_name total_id noise_ids s = Some (Inr (table, s'))"
    and ne: "tfs \<noteq> total_id" "tfs \<noteq> total_name" "total_id \<noteq> total_name"
    and ne': "noise_ids \<noteq> total_id" "noise_ids \<noteq> total_name"
    and names: "list_at s total_name = map StrId names"
  shows "assign_gene_names_og L g tf_id_dir niche_mouse (list_at s tfs) (rdb_of (s ! rdb)) tf_motif_dir
           (grn_of (s ! grn_gt)) (lr_of (s ! lr_gt)) names (list_at s total_id) (list_at s noise_ids)
         = Inr table"
proof -
  let ?grn_dir = "get_dir L (grn_of (s ! grn_gt)) (list_at s tfs)"
  let ?body = "target_step_at L tf_id_dir tf_motif_dir rdb ?grn_dir total_name total_id"
  from call_Inr[OF call] obtain s1 df1 where
    ok: "args_ok s tfs rdb grn_gt lr_gt total_name total_id noise_ids"
    and loop: "for_tfs fuel ?body tfs 0 s = Some (Inr s1)"
    and df1: "make_name_df1 L (lr_of (s1 ! lr_gt)) (list_at s1 total_id)
               (map astype_str (list_at s1 total_name)) = Inr df1"
    and two: "part_two_at L g rdb lr_gt niche_mouse noise_ids df1 s1 = Inr (table, s')"
    by blast
  have lt: "tfs < length s" "rdb < length s" "grn_gt < length s" "lr_gt < length s"
    "total_id < length s" "total_name < length s" "noise_ids < length s"
    using ok by (simp_all add: args_ok_def)
  have kinds: "rdb \<noteq> total_id" "rdb \<noteq> total_name" "lr_gt \<noteq> total_id" "lr_gt \<noteq> total_name"
    using ok by (auto simp: args_ok_def elim: is_list.elims is_rdb.elims is_lr.elims)
  have app: "appended {total_id, total_name} s s1"
    by (rule appended_for_tfs[OF loop]) (rule appended_target_step_at)
  then have same: "length s1 = length s" "s1 ! rdb = s ! rdb" "s1 ! lr_gt = s ! lr_gt"
    "s1 ! noise_ids = s ! noise_ids"
    using lt kinds ne' unfolding appended_def by simp_all
  from for_tfs_sim[OF loop ne kinds(1,2) lt(1,2,5,6) names] obtain names' where
    pure: "for_each (target_step L tf_id_dir tf_motif_dir (rdb_of (s ! rdb)) ?grn_dir)
             (list_at s tfs) (list_at s total_id, names) = Inr (list_at s1 total_id, names')"
    and n1: "list_at s1 total_name = map StrId names'"
    by auto
  have "map astype_str (map StrId names') = names'" by (simp add: comp_def)
  with df1 n1 same have d: "make_name_df1 L (lr_of (s ! lr_gt)) (list_at s1 total_id) names' = Inr df1"
    by simp
  have "map_sum id fst (part_two_at L g rdb lr_gt niche_mouse noise_ids df1 s1)
         = map_sum id (\<lambda>r. fst (snd (snd (snd r))))
             (part_two L g (rdb_of (s1 ! rdb)) (lr_of (s1 ! lr_gt)) niche_mouse (list_at s1 noise_ids) df1)"
    by (rule part_two_at_eq) (simp_all add: same lt)
  with two same obtain r where
    p: "part_two L g (rdb_of (s ! rdb)) (lr_of (s ! lr_gt)) niche_mouse (list_at s noise_ids) df1 = Inr r"
    and r: "fst (snd (snd (snd r))) = table"
    by (cases "part_two L g (rdb_of (s ! rdb)) (lr_of (s ! lr_gt)) niche_mouse (list_at s noise_ids) df1")
       (auto simp: list_at_def)
  show ?thesis
    unfolding assign_gene_names_og_def assign_run_def Let_def
    using pure d p r by (auto split: prod.splits)
qed

section \<open>The claims\<close>

subsection \<open>C1: the table is injective\<close>

text \<open>
  C1, as amended. When the names the caller seeds are pairwise distinct, every call that
  returns gives a table in which no name stands in two rows, so no two identifiers are
  bound to the same name; and no name that the table of part one (seeded regulators and
  their targets) binds is drawn for a noise gene, a ligand or a receptor, nor a noise name
  for a ligand or a receptor, nor a ligand name for a receptor. The claim as written
  speaks of every name claimed during target assignment: a name claimed there for a row
  that \<^verbatim>\<open>drop_duplicates\<close> or the receptor filter then removes is no longer in
  \<^verbatim>\<open>total_name\<close> when the pools are computed, and can be drawn again.
\<close>

theorem table_injective:
  assumes "distinct total_name"
    and "lists_a_set (list_of_name_set L)"
    and "draws_positions (sample L)"
    and "assign_run L g tf_id_dir niche_mouse tfs rdb tf_motif_dir grn_gt lr_gt total_name total_id noise_ids = Inr r"
  shows "distinct (map snd (name_df r)) \<and>
         (\<forall>i j n. (i, n) \<in> set (name_df r) \<and> (j, n) \<in> set (name_df r) \<longrightarrow> i = j) \<and>
         set (map snd (name_df1 r)) \<inter> set (noise_genes_names r) = {} \<and>
         (set (map snd (name_df1 r)) \<union> set (noise_genes_names r)) \<inter> set (ligand_genes_names r) = {} \<and>
         (set (map snd (name_df1 r)) \<union> set (noise_genes_names r) \<union> set (ligand_genes_names r))
            \<inter> set (receptor_names r) = {}"
proof -
  note N = run_names[OF assms]
  have "distinct (map snd (zip (((map (\<lambda>r. StrId (fst r)) (name_df1 r) @ noise_ids) @ list_of_id_set L (map ligand lr_gt)) @
                    list_of_id_set L (map receptor lr_gt))
                 (((map snd (name_df1 r) @ noise_genes_names r) @ ligand_genes_names r) @ receptor_names r)))"
    using N(1) N(3) by (simp only: map_snd_zip)
  then have dn: "distinct (map snd (name_df r))"
    unfolding N(2) by (rule drop_duplicates_id_distinct_snd)
  have inj: "\<forall>i j n. (i, n) \<in> set (name_df r) \<and> (j, n) \<in> set (name_df r) \<longrightarrow> i = j"
    using same_name_same_row[OF dn] by blast
  have "set (map snd (name_df1 r)) \<inter> set (noise_genes_names r) = {}"
    "(set (map snd (name_df1 r)) \<union> set (noise_genes_names r)) \<inter> set (ligand_genes_names r) = {}"
    "(set (map snd (name_df1 r)) \<union> set (noise_genes_names r) \<union> set (ligand_genes_names r))
            \<inter> set (receptor_names r) = {}"
    using N(1) by auto
  with dn inj show ?thesis by blast
qed

text \<open>The run of one regulator, one ligand-receptor pair and one noise gene satisfies the
  hypotheses.\<close>

theorem table_injective_witness:
  "assign_run lib_stable () tf_id_dir_ex niche_ex [IntId 1] rdb_ex tf_motif_dir_ex grn_gt_ex lr_gt_ex
     [''Adf1''] [IntId 1] [StrId ''gene1''] = Inr run_ex \<and>
   distinct (map snd (name_df run_ex)) \<and>
   set (map snd (name_df1 run_ex)) \<inter> set (noise_genes_names run_ex) = {}"
proof -
  have d: "distinct [''Adf1'']" by simp
  from table_injective[OF d lib_stable_ok(2) lib_stable_ok(4) run_ex_eval] run_ex_eval
  show ?thesis by blast
qed

text \<open>
  Two regulators share the regulated gene 3. The first claims \<open>A\<close> for it and the second
  \<open>B\<close>; the second row for 3 is dropped as a duplicate, \<open>B\<close> is not in the table of part
  one, and the noise gene is named \<open>B\<close>.
\<close>

theorem claimed_name_drawn_again:
  "assign_run lib_stable () tf_id_dir_two niche_ex [IntId 1, IntId 2] rdb_ex tf_motif_dir_two
     grn_gt_shared [] [''N1'', ''N2''] [IntId 1, IntId 2] [StrId ''gene1'']
   = Inr \<lparr> caller_total_id = [IntId 1, IntId 2, IntId 3, IntId 3],
           caller_total_name = [''N1'', ''N2'', ''A'', ''B''],
           caller_rdb = rdb_ex, caller_grn_gt = grn_gt_shared, caller_lr_gt = [],
           name_df1 = [(''1'', ''N1''), (''2'', ''N2''), (''3'', ''A'')],
           noise_genes_names = [''B''], ligand_genes_names = [], receptor_names = [],
           name_df = [(''1'', ''N1''), (''2'', ''N2''), (''3'', ''A''), (''gene1'', ''B'')],
           rng = () \<rparr>"
  by code_simp

subsection \<open>C2: the identifiers of the table\<close>

lemma run_table_total:
  assumes "sorts_by_effect_desc (sort_values_effect L)"
    and "lists_a_set (list_of_id_set L)"
    and "set total_id = set tfs"
    and "regulator_gene ` set grn_gt \<subseteq> set tfs"
    and "assign_run L g tf_id_dir niche_mouse tfs rdb tf_motif_dir grn_gt lr_gt total_name total_id noise_ids = Inr r"
  shows "set (map fst (name_df r))
         = astype_str ` (set tfs \<union> regulated_gene ` set grn_gt \<union> set noise_ids \<union>
                         ligand ` set lr_gt \<union> receptor ` set lr_gt)"
proof -
  have "{x \<in> set grn_gt. regulator_gene x \<in> set tfs} = set grn_gt"
    using assms(4) by auto
  then have "set (concat (map (\<lambda>tf. the (get_dir L grn_gt tfs tf)) tfs)) = regulated_gene ` set grn_gt"
    using targets_of_tfs[OF assms(1), of grn_gt tfs] by simp
  then show ?thesis
    using run_ids[OF assms(2) assms(5)] assms(3) by simp
qed

text \<open>
  C2, as amended. When the seeded identifiers are the regulators of the call and every
  regulator of the ground truth is among them (the script passes \<^verbatim>\<open>tfs.copy()\<close>
  with \<^verbatim>\<open>tfs = list(set(grn_gt['regulator.gene']))\<close>), the identifiers of the table
  of a call that returns are exactly the regulators, the regulated genes of the ground
  truth, the noise identifiers, the ligands and the receptors, each written as
  \<^verbatim>\<open>astype(str)\<close> writes it. Without the two conditions the claim fails: the loop
  adds the regulated genes of the regulators it is passed and of no other, and the
  regulators are in the table only as far as they are seeded.
\<close>

theorem table_total:
  assumes "sorts_by_effect_desc (sort_values_effect L)"
    and "lists_a_set (list_of_id_set L)"
    and "set total_id = set tfs"
    and "regulator_gene ` set grn_gt \<subseteq> set tfs"
    and "assign_gene_names_og L g tf_id_dir niche_mouse tfs rdb tf_motif_dir grn_gt lr_gt
           total_name total_id noise_ids = Inr table"
  shows "set (map fst table)
         = astype_str ` (set tfs \<union> regulated_gene ` set grn_gt \<union> set noise_ids \<union>
                         ligand ` set lr_gt \<union> receptor ` set lr_gt)"
proof -
  from assms(5) obtain r where
    run: "assign_run L g tf_id_dir niche_mouse tfs rdb tf_motif_dir grn_gt lr_gt
       total_name total_id noise_ids = Inr r" and table: "name_df r = table"
    by (rule assign_gene_names_og_Inr)
  show ?thesis
    using run_table_total[OF assms(1,2,3,4) run] unfolding table .
qed

theorem table_total_witness:
  "set (map fst (name_df run_ex))
     = astype_str ` (set [IntId 1] \<union> regulated_gene ` set grn_gt_ex \<union> set [StrId ''gene1''] \<union>
                     ligand ` set lr_gt_ex \<union> receptor ` set lr_gt_ex)"
proof -
  have a: "set [IntId 1] = set [IntId 1]" by simp
  have b: "regulator_gene ` set grn_gt_ex \<subseteq> set [IntId 1]"
    by (simp add: grn_gt_ex_def grn_def)
  show ?thesis
    by (rule table_total[OF lib_stable_ok(1) lib_stable_ok(3) a b og_ex_eval])
qed

text \<open>The record of regulator 9 is in the ground truth, its regulated gene 3 is not in the
  returned table.\<close>

theorem regulated_gene_missing:
  "assign_gene_names_og lib_stable () tf_id_dir_ex niche_ex [IntId 1] rdb_ex tf_motif_dir_ex
     grn_gt_foreign [] [''Adf1''] [IntId 1] []
   = Inr [(''1'', ''Adf1''), (''2'', ''A'')] \<and>
   IntId 3 \<in> regulated_gene ` set grn_gt_foreign \<and>
   astype_str (IntId 3) \<notin> set (map fst [(''1'', ''Adf1''), (''2'', ''A'')])"
  by code_simp

subsection \<open>C3: a regulator that runs out of candidate names\<close>

text \<open>
  C3, as amended. Let the seeded lists have equal length and every regulator of the call
  have a record in the ground truth (as in the script). If for some regulator the sorted
  candidate names are exhausted before \<open>top_num\<close> new names have been claimed, the call
  does not complete: \<^verbatim>\<open>total_name\<close> ends the loop shorter than \<^verbatim>\<open>total_id\<close> and
  \<^verbatim>\<open>pd.DataFrame\<close> raises \<^verbatim>\<open>ValueError\<close>, unless the lookup of a later regulator
  has raised \<^verbatim>\<open>KeyError\<close> or \<^verbatim>\<open>IndexError\<close> before. No table is returned.
\<close>

theorem exhausted_candidates_raise:
  assumes len: "length total_id = length total_name"
    and sorts: "sorts_by_effect_desc (sort_values_effect L)"
    and recs: "set tfs \<subseteq> regulator_gene ` set grn_gt"
    and split: "tfs = before @ tf # after"
    and before: "for_each (target_step L tf_id_dir tf_motif_dir rdb (get_dir L grn_gt tfs)) before
                   (total_id, total_name) = Inr (ids, names)"
    and motif: "tf_id_dir tf = Some tf_name" "tf_motif_dir tf_name = Some one_motif"
    and columns: "sorted_sub_columns L rdb one_motif = Inr columns"
    and top_num: "get_dir L grn_gt tfs tf = Some targets"
    and exhausted: "length (match_names columns (length names + length targets) names)
                      < length names + length targets"
  shows "assign_gene_names_og L g tf_id_dir niche_mouse tfs rdb tf_motif_dir grn_gt lr_gt
           total_name total_id noise_ids \<in> {Inl ValueError, Inl KeyError, Inl IndexError}"
proof -
  let ?step = "target_step L tf_id_dir tf_motif_dir rdb (get_dir L grn_gt tfs)"
  let ?names1 = "match_names columns (length names + length targets) names"
  have ne: "\<forall>tf \<in> set tfs. get_dir L grn_gt tfs tf \<noteq> Some []"
    by (rule get_dir_nonempty[OF sorts recs])
  have step: "?step tf (ids, names) = Inr (ids @ targets, ?names1)"
    using motif columns top_num by (simp add: target_step_def)
  have b: "length names + length total_id \<le> length ids + length total_name"
    using target_loop_names_le[OF before] ne split by simp
  show ?thesis
  proof (cases "for_each ?step tfs (total_id, total_name)")
    case (Inl e)
    from target_loop_Inl[OF Inl] assign_Inl_of_loop[OF Inl] show ?thesis by auto
  next
    case (Inr st)
    obtain ids' names' where st: "st = (ids', names')" by (cases st)
    from Inr st have "for_each ?step after (ids @ targets, ?names1) = Inr (ids', names')"
      using before step by (simp add: split for_each_append)
    from target_loop_names_le[OF this] ne split
    have "length names' + length (ids @ targets) \<le> length ids' + length ?names1" by simp
    with exhausted b len have "length ids' \<noteq> length names'" by simp
    from assign_Inl_of_lengths[OF Inr[unfolded st] this] show ?thesis by simp
  qed
qed

lemma grn_gt_many_eval:
  "get_dir lib_stable grn_gt_many [IntId 1] (IntId 1) = Some [IntId 2, IntId 3, IntId 4, IntId 5]"
  "sorted_sub_columns lib_stable rdb_ex ''m1'' = Inr [''A'', ''B'', ''C'']"
  "length (match_names [''A'', ''B'', ''C''] (length [''Adf1''] + length [IntId 2, IntId 3, IntId 4, IntId 5]) [''Adf1''])
     < length [''Adf1''] + length [IntId 2, IntId 3, IntId 4, IntId 5]"
  by code_simp+

theorem exhausted_candidates_raise_witness:
  "assign_gene_names_og lib_stable () tf_id_dir_ex niche_ex [IntId 1] rdb_ex tf_motif_dir_ex
     grn_gt_many [] [''Adf1''] [IntId 1] [] \<in> {Inl ValueError, Inl KeyError, Inl IndexError}"
proof -
  have len: "length [IntId 1] = length [''Adf1'']" by simp
  have recs: "set [IntId 1] \<subseteq> regulator_gene ` set grn_gt_many"
    by (simp add: grn_gt_many_def grn_def)
  have split: "[IntId 1] = [] @ IntId 1 # []" by simp
  have before: "for_each (target_step lib_stable tf_id_dir_ex tf_motif_dir_ex rdb_ex
                   (get_dir lib_stable grn_gt_many [IntId 1])) [] ([IntId 1], [''Adf1''])
                 = Inr ([IntId 1], [''Adf1''])" by simp
  have motif: "tf_id_dir_ex (IntId 1) = Some ''Adf1''" "tf_motif_dir_ex ''Adf1'' = Some ''m1''"
    by (simp_all add: tf_id_dir_ex_def tf_motif_dir_ex_def)
  show ?thesis
    by (rule exhausted_candidates_raise[OF len lib_stable_ok(1) recs split before motif
          grn_gt_many_eval(2) grn_gt_many_eval(1) grn_gt_many_eval(3)])
qed

text \<open>The call raises where the claim has it return a table without the unbound
  identifiers.\<close>

theorem exhausted_candidates_value_error:
  "assign_gene_names_og lib_stable () tf_id_dir_ex niche_ex [IntId 1] rdb_ex tf_motif_dir_ex
     grn_gt_many [] [''Adf1''] [IntId 1] [] = Inl ValueError"
  by code_simp

subsection \<open>C4: the order of \<open>get_dir\<close>\<close>




text \<open>Two records of equal effect stay in input order under the same sort.\<close>

lemma two_ties_in_input_order:
  "get_dir lib_quicksort [grn (IntId 1) (IntId 2) 0.5, grn (IntId 1) (IntId 3) 0.5] [IntId 1] (IntId 1)
     = Some [IntId 2, IntId 3]"
  by code_simp

text \<open>With a stable sort the result is the order of the specification.\<close>

lemma get_dir_stable_library:
  assumes "reg \<in> set regulators"
  shows "get_dir lib_stable gt regulators reg = Some (spec_get_dir gt reg)"
  using assms by (simp add: get_dir_lookup spec_get_dir_def lib_stable_fields)

subsection \<open>C5: the pool of the noise names\<close>

text \<open>
  C5. The claim is right about what the pool is meant to be and the code misses it:
  \<^verbatim>\<open>set('motifs')\<close> is the set of the six letters, so the label \<open>motifs\<close> stays in
  the pool and a gene column labelled with one of the letters leaves it. With one gene
  column, claimed for the target, the noise gene is named \<open>motifs\<close>.
\<close>

theorem pool_keeps_motifs_label:
  "total_rdb_names rdb_t = [''A'', ''B'', ''motifs''] \<and>
   unused_names lib_stable (total_rdb_names rdb_one) [''Adf1'', ''A''] = [''motifs''] \<and>
   assign_gene_names_og lib_stable () tf_id_dir_ex niche_ex [IntId 1] rdb_one tf_motif_dir_ex
     grn_gt_one [] [''Adf1''] [IntId 1] [StrId ''gene1'']
   = Inr [(''1'', ''Adf1''), (''2'', ''A''), (''gene1'', ''motifs'')]"
  by code_simp

subsection \<open>C6: a target that is also a receptor\<close>

text \<open>
  C6. The claim states what line 340 is commented to do, and the code misses it for
  integer identifiers: the table of part one holds its identifiers as strings after
  \<^verbatim>\<open>astype(str)\<close>, \<^verbatim>\<open>isin\<close> compares them with the integers of
  \<^verbatim>\<open>lr_gt.receptor\<close>, and no row is removed. The regulated gene 2 keeps the name
  \<open>A\<close> of the target phase, and the receptor phase adds a second row for it.
\<close>

theorem receptor_target_keeps_target_name:
  "assign_run lib_stable () tf_id_dir_ex niche_ex [IntId 1] rdb_ex tf_motif_dir_ex
     grn_gt_one lr_gt_target [''Adf1''] [IntId 1] []
   = Inr \<lparr> caller_total_id = [IntId 1, IntId 2], caller_total_name = [''Adf1'', ''A''],
           caller_rdb = rdb_ex, caller_grn_gt = grn_gt_one, caller_lr_gt = lr_gt_target,
           name_df1 = [(''1'', ''Adf1''), (''2'', ''A'')],
           noise_genes_names = [], ligand_genes_names = [''L1''], receptor_names = [''R1''],
           name_df = [(''1'', ''Adf1''), (''2'', ''A''), (''3'', ''L1''), (''2'', ''R1'')],
           rng = () \<rparr>"
  by code_simp

text \<open>With string identifiers the row is removed and the receptor phase names the gene.\<close>

lemma receptor_target_string_ids:
  "assign_run lib_stable () tf_id_dir_str niche_ex [StrId ''1''] rdb_ex tf_motif_dir_ex
     grn_gt_str lr_gt_str [''Adf1''] [StrId ''1''] []
   = Inr \<lparr> caller_total_id = [StrId ''1'', StrId ''2''], caller_total_name = [''Adf1'', ''A''],
           caller_rdb = rdb_ex, caller_grn_gt = grn_gt_str, caller_lr_gt = lr_gt_str,
           name_df1 = [(''1'', ''Adf1'')],
           noise_genes_names = [], ligand_genes_names = [''L1''], receptor_names = [''R1''],
           name_df = [(''1'', ''Adf1''), (''3'', ''L1''), (''2'', ''R1'')],
           rng = () \<rparr>"
  by code_simp

subsection \<open>C7: a pool too small for the noise genes\<close>

text \<open>
  C7. When the loop over the regulators and the table of part one succeed and the list of
  unused ranking-table names is shorter than \<^verbatim>\<open>noise_ids\<close>, \<^verbatim>\<open>random.sample\<close>
  raises \<^verbatim>\<open>ValueError\<close> out of \<open>assign_gene_names_og\<close>; in the script, whose call
  seeds the lists and builds the two dictionaries, \<^verbatim>\<open>to_csv\<close> is not reached and the
  store of files is as before.
\<close>

theorem short_pool_fails:
  assumes "for_each (target_step L tf_id_dir tf_motif_dir rdb (get_dir L grn_gt tfs)) tfs
             (total_id, total_name) = Inr (ids, names)"
    and "make_name_df1 L lr_gt ids names = Inr df1"
    and "length (unused_names L (total_rdb_names rdb) (map snd df1)) < length noise_ids"
  shows "assign_gene_names_og L g tf_id_dir niche_mouse tfs rdb tf_motif_dir grn_gt lr_gt
           total_name total_id noise_ids = Inl ValueError \<and>
         (tf_id_dir = dict_zip tfs total_name \<and> tf_motif_dir = dict_zip total_name motif_names \<and>
          total_id = tfs \<longrightarrow>
            main L g niche_mouse tfs total_name motif_names rdb grn_gt lr_gt noise_ids files
              = (Some ValueError, files))"
proof -
  have p2: "part_two L g rdb lr_gt niche_mouse noise_ids df1 = Inl ValueError"
    using assms(3) by (simp add: part_two_def py_sample_def)
  have a: "assign_gene_names_og L g tf_id_dir niche_mouse tfs rdb tf_motif_dir grn_gt lr_gt
           total_name total_id noise_ids = Inl ValueError"
    using assms(1,2) p2 by (simp add: assign_gene_names_og_def assign_run_def)
  then show ?thesis by (auto simp: main_def)
qed

lemma short_pool_eval:
  "for_each (target_step lib_stable (dict_zip [IntId 1] [''Adf1'']) (dict_zip [''Adf1''] [''m1'']) rdb_ex
       (get_dir lib_stable grn_gt_ex [IntId 1])) [IntId 1] ([IntId 1], [''Adf1''])
     = Inr ([IntId 1, IntId 2, IntId 3], [''Adf1'', ''A'', ''B''])"
  "make_name_df1 lib_stable lr_gt_ex [IntId 1, IntId 2, IntId 3] [''Adf1'', ''A'', ''B'']
     = Inr [(''1'', ''Adf1''), (''2'', ''A''), (''3'', ''B'')]"
  "length (unused_names lib_stable (total_rdb_names rdb_ex)
       (map snd [(''1'', ''Adf1''), (''2'', ''A''), (''3'', ''B'')]))
     < length [StrId ''gene1'', StrId ''gene2'', StrId ''gene3'']"
  by code_simp+

theorem short_pool_fails_witness:
  "main lib_stable () niche_ex [IntId 1] [''Adf1''] [''m1''] rdb_ex grn_gt_ex lr_gt_ex
     [StrId ''gene1'', StrId ''gene2'', StrId ''gene3''] Map.empty = (Some ValueError, Map.empty)"
  using short_pool_fails[OF short_pool_eval, of "()" niche_ex "[''m1'']" Map.empty] by simp

subsection \<open>C8: the names of the regulators\<close>






subsection \<open>C9: what is determined by the inputs\<close>

text \<open>
  C9, as amended. Two calls on identical arguments return tables that agree on the rows
  of the regulators and their targets: the table of part one is the same, and it leads
  both returned tables (after \<^verbatim>\<open>drop_duplicates\<close>). This holds whatever the state of
  the random generator, the positions it draws and the order in which sets are listed;
  only \<^verbatim>\<open>sort_values\<close> has to return the same order in both calls. The function takes
  no seed, and the names of noise genes, ligands and receptors are not determined by the
  arguments and the generator alone.
\<close>

theorem target_rows_determined:
  assumes "sort_values_effect L = sort_values_effect L'"
    and "sort_values_rank L = sort_values_rank L'"
    and "lists_a_set (list_of_id_set L)" and "lists_a_set (list_of_id_set L')"
    and "assign_run L g tf_id_dir niche_mouse tfs rdb tf_motif_dir grn_gt lr_gt
           total_name total_id noise_ids = Inr r"
    and "assign_run L' g' tf_id_dir niche_mouse tfs rdb tf_motif_dir grn_gt lr_gt
           total_name total_id noise_ids = Inr r'"
  shows "name_df1 r = name_df1 r' \<and>
         take (length (drop_duplicates_id (name_df1 r))) (name_df r) = drop_duplicates_id (name_df1 r) \<and>
         take (length (drop_duplicates_id (name_df1 r))) (name_df r') = drop_duplicates_id (name_df1 r)"
proof -
  note R = assign_run_Inr[OF assms(5)] and R' = assign_run_Inr[OF assms(6)]
  have "(caller_total_id r, caller_total_name r) = (caller_total_id r', caller_total_name r')"
    using R(1) R'(1) part_one_determined[OF assms(1,2)] by (metis Inr_inject)
  then have "name_df1 r = name_df1 r'"
    using R(2) R'(2) make_name_df1_determined[OF assms(3,4)] by (metis Inr_inject prod.inject)
  with run_table_prefix[OF assms(5)] run_table_prefix[OF assms(6)] show ?thesis by simp
qed

lemma run_ex_reversed_eval:
  "assign_run lib_set_reversed () tf_id_dir_ex niche_ex [IntId 1] rdb_ex tf_motif_dir_ex grn_gt_ex lr_gt_ex
     [''Adf1''] [IntId 1] [StrId ''gene1'']
   = Inr (run_ex \<lparr> noise_genes_names := [''motifs''],
                   name_df := [(''1'', ''Adf1''), (''2'', ''A''), (''3'', ''B''), (''gene1'', ''motifs''),
                               (''4'', ''L1''), (''5'', ''R1'')] \<rparr>)"
  by code_simp

theorem target_rows_determined_witness:
  "take (length (drop_duplicates_id (name_df1 run_ex)))
        [(''1'', ''Adf1''), (''2'', ''A''), (''3'', ''B''), (''gene1'', ''motifs''), (''4'', ''L1''), (''5'', ''R1'')]
   = drop_duplicates_id (name_df1 run_ex)"
  using target_rows_determined[OF lib_set_reversed_fields(1,2)[symmetric] lib_stable_ok(3)
      lib_stable_ok(3)[folded lib_set_reversed_fields(3)] run_ex_eval run_ex_reversed_eval]
  by simp

text \<open>
  The same arguments, the same state of the generator and the same drawn positions, and
  two orders in which \<^verbatim>\<open>list(...)\<close> enumerates the set of unused names: the noise gene
  is named \<open>C\<close> in one call and \<open>motifs\<close> in the other.
\<close>

theorem same_generator_other_table:
  "sample lib_set_reversed = sample lib_stable \<and>
   assign_gene_names_og lib_stable () tf_id_dir_ex niche_ex [IntId 1] rdb_ex tf_motif_dir_ex
     grn_gt_ex lr_gt_ex [''Adf1''] [IntId 1] [StrId ''gene1'']
   = Inr [(''1'', ''Adf1''), (''2'', ''A''), (''3'', ''B''), (''gene1'', ''C''), (''4'', ''L1''), (''5'', ''R1'')] \<and>
   assign_gene_names_og lib_set_reversed () tf_id_dir_ex niche_ex [IntId 1] rdb_ex tf_motif_dir_ex
     grn_gt_ex lr_gt_ex [''Adf1''] [IntId 1] [StrId ''gene1'']
   = Inr [(''1'', ''Adf1''), (''2'', ''A''), (''3'', ''B''), (''gene1'', ''motifs''), (''4'', ''L1''), (''5'', ''R1'')]"
proof -
  have "assign_gene_names_og lib_stable () tf_id_dir_ex niche_ex [IntId 1] rdb_ex tf_motif_dir_ex
     grn_gt_ex lr_gt_ex [''Adf1''] [IntId 1] [StrId ''gene1'']
   = Inr [(''1'', ''Adf1''), (''2'', ''A''), (''3'', ''B''), (''gene1'', ''C''), (''4'', ''L1''), (''5'', ''R1'')]"
    by code_simp
  moreover have "assign_gene_names_og lib_set_reversed () tf_id_dir_ex niche_ex [IntId 1] rdb_ex tf_motif_dir_ex
     grn_gt_ex lr_gt_ex [''Adf1''] [IntId 1] [StrId ''gene1'']
   = Inr [(''1'', ''Adf1''), (''2'', ''A''), (''3'', ''B''), (''gene1'', ''motifs''), (''4'', ''L1''), (''5'', ''R1'')]"
    by code_simp
  ultimately show ?thesis by (simp add: lib_set_reversed_fields)
qed

subsection \<open>C10: what the call leaves in the caller's objects\<close>

text \<open>
  C10. A call that returns has changed, of the objects that existed before it, only the
  two lists passed as \<^verbatim>\<open>total_name\<close> and \<^verbatim>\<open>total_id\<close>, and these only by
  appending in place. The store cut down to the objects of the caller is the store as the
  loop over the regulators left it: the appends of the target phase are what the caller
  sees after the call, and the names and identifiers of part two went to the two lists
  that lines 342 and 343 allocated. The frames \<^verbatim>\<open>rdb\<close>, \<^verbatim>\<open>grn_gt\<close> and
  \<^verbatim>\<open>lr_gt\<close> are the objects they were. All this holds whichever parameters name
  the same object. When \<^verbatim>\<open>tfs\<close>, \<^verbatim>\<open>total_id\<close> and \<^verbatim>\<open>total_name\<close> are
  three objects, the list of regulators is as it was, the list of identifiers holds what
  it held followed by the regulated identifiers of every regulator in turn, in the order
  of \<open>get_dir\<close>, and the two lists are the result of lines 320 to 333 on the lists the
  caller passed.
\<close>

theorem caller_objects_after_call:
  assumes call: "call_assign_gene_names_og fuel L g tf_id_dir niche_mouse tfs rdb tf_motif_dir
                   grn_gt lr_gt total_name total_id noise_ids s = Some (Inr (table, s'))"
  shows "(\<exists>s1. for_tfs fuel (target_step_at L tf_id_dir tf_motif_dir rdb
                  (get_dir L (grn_of (s ! grn_gt)) (list_at s tfs)) total_name total_id) tfs 0 s
                = Some (Inr s1) \<and> take (length s) s' = s1) \<and>
         s' ! rdb = s ! rdb \<and> s' ! grn_gt = s ! grn_gt \<and> s' ! lr_gt = s ! lr_gt \<and>
         (\<forall>a < length s. a \<noteq> total_id \<and> a \<noteq> total_name \<longrightarrow> s' ! a = s ! a) \<and>
         (\<exists>ys. list_at s' total_id = list_at s total_id @ ys) \<and>
         (\<exists>ys. list_at s' total_name = list_at s total_name @ ys) \<and>
         (tfs \<noteq> total_id \<and> tfs \<noteq> total_name \<and> total_id \<noteq> total_name \<longrightarrow>
            list_at s' tfs = list_at s tfs \<and>
            list_at s' total_id
              = list_at s total_id @ concat (map (\<lambda>tf. map regulated_gene
                  (sort_values_effect L (filter (\<lambda>x. regulator_gene x = tf) (grn_of (s ! grn_gt)))))
                  (list_at s tfs)) \<and>
            (\<forall>names. list_at s total_name = map StrId names \<longrightarrow>
               (\<exists>names'. for_each (target_step L tf_id_dir tf_motif_dir (rdb_of (s ! rdb))
                             (get_dir L (grn_of (s ! grn_gt)) (list_at s tfs)))
                           (list_at s tfs) (list_at s total_id, names)
                         = Inr (list_at s' total_id, names') \<and>
                         list_at s' total_name = map StrId names')))"
proof -
  let ?grn_dir = "get_dir L (grn_of (s ! grn_gt)) (list_at s tfs)"
  let ?body = "target_step_at L tf_id_dir tf_motif_dir rdb ?grn_dir total_name total_id"
  from call_Inr[OF call] obtain s1 df1 where
    ok: "args_ok s tfs rdb grn_gt lr_gt total_name total_id noise_ids"
    and loop: "for_tfs fuel ?body tfs 0 s = Some (Inr s1)"
    and two: "part_two_at L g rdb lr_gt niche_mouse noise_ids df1 s1 = Inr (table, s')"
    by blast
  have app: "appended {total_id, total_name} s s1"
    by (rule appended_for_tfs[OF loop]) (rule appended_target_step_at)
  then have len: "length s1 = length s" by (simp add: appended_def)
  have keep: "take (length s) s' = s1" using part_two_at_keeps(1)[OF two] len by simp
  have nth: "s' ! a = s1 ! a" if "a < length s" for a
  proof -
    have "take (length s) s' ! a = s' ! a" using that by simp
    with keep show ?thesis by simp
  qed
  have lst: "list_at s' a = list_at s1 a" if "a < length s" for a
    using nth[OF that] by (simp add: list_at_def)
  have lt: "tfs < length s" "rdb < length s" "grn_gt < length s" "lr_gt < length s"
    "total_id < length s" "total_name < length s"
    using ok by (simp_all add: args_ok_def)
  have kinds: "rdb \<noteq> total_id" "rdb \<noteq> total_name" "grn_gt \<noteq> total_id" "grn_gt \<noteq> total_name"
    "lr_gt \<noteq> total_id" "lr_gt \<noteq> total_name"
    using ok by (auto simp: args_ok_def elim: is_list.elims is_rdb.elims is_grn.elims is_lr.elims)
  have other: "s' ! a = s ! a" if "a < length s" "a \<noteq> total_id" "a \<noteq> total_name" for a
    using app that nth[OF that(1)] unfolding appended_def by simp
  have pre: "\<exists>ys. list_at s' a = list_at s a @ ys" if "a < length s" for a
    using app that lst[OF that] unfolding appended_def by simp
  have 1: "\<exists>s1. for_tfs fuel ?body tfs 0 s = Some (Inr s1) \<and> take (length s) s' = s1"
    using loop keep by simp
  have 2: "s' ! rdb = s ! rdb" "s' ! grn_gt = s ! grn_gt" "s' ! lr_gt = s ! lr_gt"
    using other lt kinds by simp_all
  have 3: "\<forall>a < length s. a \<noteq> total_id \<and> a \<noteq> total_name \<longrightarrow> s' ! a = s ! a"
    using other by simp
  have 4: "\<exists>ys. list_at s' total_id = list_at s total_id @ ys"
    "\<exists>ys. list_at s' total_name = list_at s total_name @ ys"
    using pre lt by simp_all
  have 5: "list_at s' tfs = list_at s tfs \<and>
           list_at s' total_id
              = list_at s total_id @ concat (map (\<lambda>tf. map regulated_gene
                  (sort_values_effect L (filter (\<lambda>x. regulator_gene x = tf) (grn_of (s ! grn_gt)))))
                  (list_at s tfs)) \<and>
            (\<forall>names. list_at s total_name = map StrId names \<longrightarrow>
               (\<exists>names'. for_each (target_step L tf_id_dir tf_motif_dir (rdb_of (s ! rdb)) ?grn_dir)
                           (list_at s tfs) (list_at s total_id, names)
                         = Inr (list_at s' total_id, names') \<and>
                         list_at s' total_name = map StrId names'))"
    if ne: "tfs \<noteq> total_id" "tfs \<noteq> total_name" "total_id \<noteq> total_name"
  proof -
    have a: "list_at s' tfs = list_at s tfs"
      using other[OF lt(1) ne(1,2)] by (simp add: list_at_def)
    have "list_at s1 total_id
          = list_at s total_id @ concat (map (\<lambda>tf. the (?grn_dir tf)) (list_at s tfs))"
      using for_tfs_ids[OF loop ne lt(1,5)] by simp
    then have b: "list_at s' total_id
              = list_at s total_id @ concat (map (\<lambda>tf. map regulated_gene
                  (sort_values_effect L (filter (\<lambda>x. regulator_gene x = tf) (grn_of (s ! grn_gt)))))
                  (list_at s tfs))"
      using lst[OF lt(5)] by (simp only: targets_explicit)
    have c: "\<exists>names'. for_each (target_step L tf_id_dir tf_motif_dir (rdb_of (s ! rdb)) ?grn_dir)
                           (list_at s tfs) (list_at s total_id, names)
                         = Inr (list_at s' total_id, names') \<and>
                         list_at s' total_name = map StrId names'"
      if "list_at s total_name = map StrId names" for names
      using for_tfs_sim[OF loop ne kinds(1,2) lt(1,2,5,6) that] lst[OF lt(5)] lst[OF lt(6)]
      by simp
    from a b c show ?thesis by blast
  qed
  from 1 2 3 4 5 show ?thesis by blast
qed

text \<open>The example run on a store of seven objects, with fuel for its one regulator: the
  call, the store it returns, and what the theorem says of the caller's objects in it.\<close>

theorem caller_objects_after_call_witness:
  "call_assign_gene_names_og 2 lib_stable () tf_id_dir_ex niche_ex 0 1 tf_motif_dir_ex 2 3 4 5 6 store_ex
     = Some (Inr ([(''1'', ''Adf1''), (''2'', ''A''), (''3'', ''B''), (''gene1'', ''C''),
                   (''4'', ''L1''), (''5'', ''R1'')], store_ex_after)) \<and>
   list_at store_ex 4 = [StrId ''Adf1''] \<and> list_at store_ex 5 = [IntId 1] \<and>
   list_at store_ex_after 4 = [StrId ''Adf1'', StrId ''A'', StrId ''B''] \<and>
   list_at store_ex_after 5 = [IntId 1, IntId 2, IntId 3] \<and>
   list_at store_ex_after 0 = [IntId 1] \<and> list_at store_ex_after 6 = [StrId ''gene1''] \<and>
   store_ex_after ! 1 = RdbFrame rdb_ex \<and> store_ex_after ! 2 = GrnFrame grn_gt_ex \<and>
   store_ex_after ! 3 = LrFrame lr_gt_ex"
proof -
  have call: "call_assign_gene_names_og 2 lib_stable () tf_id_dir_ex niche_ex 0 1 tf_motif_dir_ex
                2 3 4 5 6 store_ex
     = Some (Inr ([(''1'', ''Adf1''), (''2'', ''A''), (''3'', ''B''), (''gene1'', ''C''),
                   (''4'', ''L1''), (''5'', ''R1'')], store_ex_after))"
    by code_simp
  have ex: "length store_ex = 7" "store_ex ! 1 = RdbFrame rdb_ex" "store_ex ! 2 = GrnFrame grn_gt_ex"
    "store_ex ! 3 = LrFrame lr_gt_ex" "list_at store_ex 0 = [IntId 1]"
    "list_at store_ex 4 = map StrId [''Adf1'']" "list_at store_ex 5 = [IntId 1]"
    "store_ex ! 6 = PyList [StrId ''gene1'']"
    by (simp_all add: store_ex_def list_at_def)
  have targets: "concat (map (\<lambda>tf. map regulated_gene
          (sort_values_effect lib_stable (filter (\<lambda>x. regulator_gene x = tf) grn_gt_ex))) [IntId 1])
        = [IntId 2, IntId 3]"
    by code_simp
  have pure: "for_each (target_step lib_stable tf_id_dir_ex tf_motif_dir_ex rdb_ex
                 (get_dir lib_stable grn_gt_ex [IntId 1])) [IntId 1] ([IntId 1], [''Adf1''])
              = Inr ([IntId 1, IntId 2, IntId 3], [''Adf1'', ''A'', ''B''])"
    by code_simp
  note C = caller_objects_after_call[OF call]
  have frames: "store_ex_after ! 1 = RdbFrame rdb_ex" "store_ex_after ! 2 = GrnFrame grn_gt_ex"
    "store_ex_after ! 3 = LrFrame lr_gt_ex"
    using C ex by simp_all
  have others: "list_at store_ex_after 0 = [IntId 1]" "list_at store_ex_after 6 = [StrId ''gene1'']"
    using C ex by (simp_all add: list_at_def)
  have ids: "list_at store_ex_after 5 = [IntId 1, IntId 2, IntId 3]"
    using C ex targets by simp
  have ne: "(0::nat) \<noteq> 5 \<and> (0::nat) \<noteq> 4 \<and> (5::nat) \<noteq> 4" by simp
  from C ne have "\<forall>names. list_at store_ex 4 = map StrId names \<longrightarrow>
      (\<exists>names'. for_each (target_step lib_stable tf_id_dir_ex tf_motif_dir_ex (rdb_of (store_ex ! 1))
                    (get_dir lib_stable (grn_of (store_ex ! 2)) (list_at store_ex 0)))
                  (list_at store_ex 0) (list_at store_ex 5, names)
                = Inr (list_at store_ex_after 5, names') \<and>
                list_at store_ex_after 4 = map StrId names')"
    by blast
  with ex(6) have "\<exists>names'. for_each (target_step lib_stable tf_id_dir_ex tf_motif_dir_ex
                    (rdb_of (store_ex ! 1))
                    (get_dir lib_stable (grn_of (store_ex ! 2)) (list_at store_ex 0)))
                  (list_at store_ex 0) (list_at store_ex 5, [''Adf1''])
                = Inr (list_at store_ex_after 5, names') \<and>
                list_at store_ex_after 4 = map StrId names'"
    by blast
  then have "\<exists>names'. Inr ([IntId 1, IntId 2, IntId 3], [''Adf1'', ''A'', ''B''])
                = (Inr (list_at store_ex_after 5, names') :: error + gene_id list \<times> string list) \<and>
                list_at store_ex_after 4 = map StrId names'"
    unfolding ex(2,3,5,7) rdb_of.simps grn_of.simps pure .
  then have names: "list_at store_ex_after 4 = [StrId ''Adf1'', StrId ''A'', StrId ''B'']"
    by auto
  from call ex(6,7) frames others ids names show ?thesis by simp
qed

text \<open>
  When \<^verbatim>\<open>total_id\<close> is the list \<^verbatim>\<open>tfs\<close> itself, line 328 extends the list
  the loop runs over: in the example the loop comes to the regulated gene 2 as if it
  were a regulator and line 322 raises. When \<^verbatim>\<open>noise_ids\<close> is the caller's
  \<^verbatim>\<open>total_id\<close>, line 353 draws as many names as that list holds after the loop,
  more than the example's pool has. The loop over one regulator takes two steps of fuel.
  By \<open>call_returns_with_fuel\<close> the call has a result whenever the list of regulators
  is neither of the two lists and the fuel exceeds its length. By
  \<open>call_table_is_function_table\<close> the table of a call whose lists are objects of
  their own, the seeded names strings, is the table of \<open>assign_gene_names_og\<close> on
  the contents of the arguments.
\<close>

lemma call_aliased_total_id_tfs:
  "call_assign_gene_names_og 9 lib_stable () tf_id_dir_ex niche_ex 0 1 tf_motif_dir_ex 2 3 4 0 6 store_ex
   = Some (Inl KeyError)"
  by code_simp

lemma call_aliased_noise_ids_total_id:
  "call_assign_gene_names_og 9 lib_stable () tf_id_dir_ex niche_ex 0 1 tf_motif_dir_ex 2 3 4 5 5 store_ex
   = Some (Inl ValueError)"
  by code_simp

lemma call_out_of_fuel:
  "call_assign_gene_names_og 1 lib_stable () tf_id_dir_ex niche_ex 0 1 tf_motif_dir_ex 2 3 4 5 6 store_ex
   = None"
  by code_simp

end
